theory Spec2Isabelle
  imports Main "HOL-Library.Word"
begin

section \<open>The item cache of the probe runtime (icache.c)\<close>

text \<open>
  A shallow embedding of \<^verbatim>\<open>src/OVAL/probes/probe/icache.c\<close>: the stamping of items
  (\<^verbatim>\<open>probe_icache_item_setID\<close>), the work queue (\<^verbatim>\<open>__probe_icache_add_nolock\<close>,
  \<^verbatim>\<open>probe_icache_add\<close>, \<^verbatim>\<open>probe_icache_nop\<close>), the worker
  (\<^verbatim>\<open>probe_icache_worker\<close>) and the boundary helper \<^verbatim>\<open>probe_item_collect\<close>.

  Pointers are addresses (\<open>nat\<close>, \<open>NULL = 0\<close>). The memory the functions share is one
  record, \<open>state\<close>; every call of a library the file does not define (pthread, the
  allocator, SEAP) is an event appended to the state's trace, and its return code is read
  from an oracle, so that each error branch of the source is a branch of the model.
\<close>

subsection \<open>Pointers and S-expressions\<close>

type_synonym ptr = nat

definition NULL :: ptr where
  "NULL = 0"

text \<open>
  The content of an item. The source documents the shape of an item as
  \<^verbatim>\<open>((foo_item :id "<int>") ... )\<close>: a list whose first element is the name list, the
  third element of which is the identifier.
\<close>

datatype sexp = SEXP_string string | SEXP_number int | SEXP_list "sexp list"

subsection \<open>Formatted output: the conversions of \<^verbatim>\<open>"1%05u%u"\<close>\<close>

definition digit_char :: "nat \<Rightarrow> char" where
  "digit_char d = ''0123456789'' ! d"

text \<open>The decimal digits of an unsigned number, most significant first, as \<^verbatim>\<open>%u\<close> prints them.\<close>

fun decimal :: "nat \<Rightarrow> string" where
  "decimal n = (if n < 10 then [digit_char n] else decimal (n div 10) @ [digit_char (n mod 10)])"

declare decimal.simps [simp del]

text \<open>A converted number in a field of minimum width \<open>w\<close>, padded on the left (flag \<^verbatim>\<open>0\<close>: with zeros).\<close>

definition pad_field :: "bool \<Rightarrow> nat \<Rightarrow> string \<Rightarrow> string" where
  "pad_field zero w ds = replicate (w - length ds) (if zero then CHR ''0'' else CHR '' '') @ ds"

definition is_digit :: "char \<Rightarrow> bool" where
  "is_digit c = (c \<in> set ''0123456789'')"

definition digit_val :: "char \<Rightarrow> nat" where
  "digit_val c = of_char c - 48"

text \<open>
  The reader of a format string is in one of two modes: copying literal characters, or
  inside a conversion specification after \<^verbatim>\<open>%\<close>, having read a zero flag and a width.
\<close>

datatype fmt_mode = Literal | Conversion bool nat

text \<open>The part of \<^verbatim>\<open>printf\<close> that the source uses: literal text and \<^verbatim>\<open>%[0][width]u\<close>.\<close>

fun format_u :: "fmt_mode \<Rightarrow> string \<Rightarrow> nat list \<Rightarrow> string" where
  "format_u m [] args = []"
| "format_u Literal (c # cs) args =
     (if c = CHR ''%'' then format_u (Conversion False 0) cs args
      else c # format_u Literal cs args)"
| "format_u (Conversion z w) (c # cs) args =
     (if c = CHR ''u'' then
        (case args of
           [] \<Rightarrow> []
         | a # as \<Rightarrow> pad_field z w (decimal a) @ format_u Literal cs as)
      else if c = CHR ''0'' \<and> w = 0 \<and> \<not> z then format_u (Conversion True 0) cs args
      else if is_digit c then format_u (Conversion z (10 * w + digit_val c)) cs args
      else [])"

text \<open>\<^verbatim>\<open>SEXP_string_newf_r(&uniq_id, fmt, ...)\<close>: a string S-expression from a format.\<close>

definition SEXP_string_newf :: "string \<Rightarrow> nat list \<Rightarrow> sexp" where
  "SEXP_string_newf fmt args = SEXP_string (format_u Literal fmt args)"

text \<open>
  The format the spec gives for a stamp: the prefix \<open>1\<close>, the process identifier
  zero-padded to five digits, the counter in decimal with no padding.
\<close>

definition stamp_format :: "nat \<Rightarrow> nat \<Rightarrow> string" where
  "stamp_format pid counter =
     ''1'' @ replicate (5 - length (decimal pid)) CHR ''0'' @ decimal pid @ decimal counter"

subsection \<open>Calls out of the file, and the shared memory\<close>

datatype mutex = Queue_mutex | Next_ID_mutex

datatype condvar = Queue_notempty | Queue_notfull | Cond_at ptr

text \<open>
  The calls whose effect is outside the file. \<open>SEXP_free p\<close> releases the item at \<open>p\<close>;
  \<open>Oscap_free_items\<close> and \<open>Oscap_free_citem\<close> release a bucket's pointer array and the
  bucket (\<^verbatim>\<open>oscap_free(cached->item)\<close>, \<^verbatim>\<open>oscap_free(cached)\<close>).
\<close>

datatype event =
    Mutex_lock mutex
  | Mutex_unlock mutex
  | Mutex_init mutex
  | Mutex_destroy mutex
  | Cond_init condvar
  | Cond_destroy condvar
  | Thread_create
  | Cond_signal condvar
  | Cond_wait condvar
  | Rbt_i64_add "64 word"
  | Cobj_add_item ptr ptr
  | SEXP_free ptr
  | Oscap_free_items "ptr list"
  | Oscap_free_citem

text \<open>
  What the build and the environment decide: the compile-time switches
  (\<^verbatim>\<open>HAVE_ATOMIC_FUNCTIONS\<close>, \<^verbatim>\<open>NDEBUG\<close>), the process identifier, the two operations of
  SEAP on item contents (\<^verbatim>\<open>SEXP_ID_v\<close>, \<^verbatim>\<open>SEXP_deepcmp\<close>), the filter predicate, and the
  return code of every fallible call, which may depend on all calls made before it.
\<close>

record sys =
  have_atomic_functions :: bool
  debug_build :: bool
  getpid :: nat
  SEXP_ID_v :: "sexp \<Rightarrow> 64 word"
  SEXP_deepcmp :: "sexp \<Rightarrow> sexp \<Rightarrow> bool"
  probe_item_filtered :: "sexp \<Rightarrow> ptr \<Rightarrow> bool"
  rc :: "event list \<Rightarrow> event \<Rightarrow> int"

text \<open>
  \<^verbatim>\<open>probe_iqpair_t\<close>: the destination and a union of an item and a condition variable.
  The union holds one pointer; the constructor records the member that was written.
\<close>

datatype iq_union = P_item ptr | P_cond ptr

fun p_ptr :: "iq_union \<Rightarrow> ptr" where
  "p_ptr (P_item x) = x"
| "p_ptr (P_cond x) = x"

record probe_iqpair =
  pair_cobj :: ptr
  pair_p :: iq_union

text \<open>
  \<^verbatim>\<open>probe_citem_t\<close>: a bucket is the array \<^verbatim>\<open>item[0 .. count - 1]\<close>; the list is that array
  and \<^verbatim>\<open>count\<close> is its length. \<^verbatim>\<open>count\<close> is a \<^verbatim>\<open>uint16_t\<close>: incrementing it at 65535
  gives 0, the array is then reallocated to no element and written at index -1.
\<close>

type_synonym probe_citem = "ptr list"

text \<open>
  \<^verbatim>\<open>probe_icache_t\<close> (the queue, its three indices and its capacity, the tree), the
  items' memory, the collected objects, the global counter \<^verbatim>\<open>next_ID\<close>, whether the
  queue mutex is held, and the calls made so far. A slot of the queue that was never
  written is \<open>None\<close>.
\<close>

record state =
  queue :: "probe_iqpair option list"
  queue_beg :: "16 word"
  queue_end :: "16 word"
  queue_cnt :: "16 word"
  queue_max :: "16 word"
  tree :: "64 word \<rightharpoonup> probe_citem"
  heap :: "ptr \<Rightarrow> sexp"
  cobjs :: "ptr \<Rightarrow> ptr list"
  next_ID :: "32 word"
  locked :: bool
  trace :: "event list"

text \<open>
  How a piece of code ends: it goes on or returns with a value, it makes the worker's
  thread function return \<^verbatim>\<open>NULL\<close>, it waits for ever on a condition, the process is
  aborted, or the behaviour is undefined (a read outside an array or of a slot never
  written, the bucket counter wrapping around).
\<close>

datatype 'a outcome =
  Returned 'a state | Exited state | Blocked state | Aborted state | Undefined

text \<open>A fallible call: its return code, and the state with the call recorded.\<close>

definition call :: "sys \<Rightarrow> event \<Rightarrow> state \<Rightarrow> int \<times> state" where
  "call sys e s = (rc sys (trace s) e, s\<lparr>trace := trace s @ [e]\<rparr>)"

subsection \<open>Stamping: \<^verbatim>\<open>probe_icache_item_setID\<close>\<close>

text \<open>
  Modelled from the spec: \<^verbatim>\<open>SEXP_list_replace\<close> and \<^verbatim>\<open>SEXP_listref_first\<close> belong to
  SEAP, which is not under src/. The stamp field the spec speaks of is, by the comment
  in the source, the third element of the item's first element; replacing the \<open>n\<close>-th
  element (counted from 1) of something that is not a list of at least \<open>n\<close> elements
  changes nothing.
\<close>

definition SEXP_list_replace :: "sexp \<Rightarrow> nat \<Rightarrow> sexp \<Rightarrow> sexp" where
  "SEXP_list_replace l n v =
     (case l of
        SEXP_list xs \<Rightarrow> if 1 \<le> n \<and> n \<le> length xs then SEXP_list (xs[n - 1 := v]) else l
      | _ \<Rightarrow> l)"

definition item_replace_id :: "sexp \<Rightarrow> sexp \<Rightarrow> sexp" where
  "item_replace_id item uniq_id =
     (case item of
        SEXP_list (name_ref # rest) \<Rightarrow> SEXP_list (SEXP_list_replace name_ref 3 uniq_id # rest)
      | _ \<Rightarrow> item)"

text \<open>The stamp field of an item, when it has one.\<close>

definition item_id :: "sexp \<Rightarrow> sexp option" where
  "item_id item =
     (case item of
        SEXP_list (SEXP_list (n # a # v # attrs) # rest) \<Rightarrow> Some v
      | _ \<Rightarrow> None)"

definition SEXP_listp :: "sexp \<Rightarrow> bool" where
  "SEXP_listp x = (case x of SEXP_list xs \<Rightarrow> True | _ \<Rightarrow> False)"

text \<open>
  Lines 59 to 73: the counter is read and advanced, by \<^verbatim>\<open>__sync_fetch_and_add\<close> when the
  build has atomic functions, under \<^verbatim>\<open>next_ID_mutex\<close> by \<^verbatim>\<open>++next_ID\<close> otherwise.
\<close>

definition next_local_id :: "sys \<Rightarrow> state \<Rightarrow> (32 word) outcome" where
  "next_local_id sys s =
     (if have_atomic_functions sys then
        Returned (next_ID s) (s\<lparr>next_ID := next_ID s + 1\<rparr>)
      else
        (let (r1, s1) = call sys (Mutex_lock Next_ID_mutex) s in
         if r1 \<noteq> 0 then Aborted s1
         else
           (let s2 = s1\<lparr>next_ID := next_ID s1 + 1\<rparr>;
                local_id = next_ID s2;
                (r3, s3) = call sys (Mutex_unlock Next_ID_mutex) s2
            in if r3 \<noteq> 0 then Aborted s3 else Returned local_id s3)))"

text \<open>
  \<^verbatim>\<open>probe_icache_item_setID(item, item_ID)\<close>. The two \<^verbatim>\<open>assume_d\<close> lines return early in
  a debug build. The references the function releases at its end (\<^verbatim>\<open>prev_id\<close>,
  \<^verbatim>\<open>uniq_id\<close>, \<^verbatim>\<open>name_ref\<close>) are its own temporaries, not items, and leave no event.
\<close>

definition probe_icache_item_setID :: "sys \<Rightarrow> ptr \<Rightarrow> state \<Rightarrow> unit outcome" where
  "probe_icache_item_setID sys item s =
     (if debug_build sys \<and> (item = NULL \<or> \<not> SEXP_listp (heap s item)) then Returned () s
      else
        (case next_local_id sys s of
           Returned local_id s1 \<Rightarrow>
             (let uniq_id = SEXP_string_newf ''1%05u%u'' [getpid sys, unat local_id]
              in Returned () (s1\<lparr>heap := (heap s1)(item := item_replace_id (heap s1 item) uniq_id)\<rparr>))
         | Exited s1 \<Rightarrow> Exited s1
         | Blocked s1 \<Rightarrow> Blocked s1
         | Aborted s1 \<Rightarrow> Aborted s1
         | Undefined \<Rightarrow> Undefined))"

subsection \<open>The work queue: \<^verbatim>\<open>__probe_icache_add_nolock\<close>, \<^verbatim>\<open>probe_icache_add\<close>, \<^verbatim>\<open>probe_icache_nop\<close>\<close>

text \<open>
  A thread that waits on a condition releases the queue mutex, and finds the shared
  memory as the other threads left it when it is woken. What the other threads do during
  the successive waits of a call is a list of state transformers; when the list is used
  up, nobody wakes the thread and the call is \<open>Blocked\<close>.
\<close>

type_synonym env = "(state \<Rightarrow> state) list"

definition mutex_lock :: "sys \<Rightarrow> state \<Rightarrow> int \<times> state" where
  "mutex_lock sys s =
     (let (r, s1) = call sys (Mutex_lock Queue_mutex) s
      in (r, if r = 0 then s1\<lparr>locked := True\<rparr> else s1))"

definition mutex_unlock :: "sys \<Rightarrow> state \<Rightarrow> int \<times> state" where
  "mutex_unlock sys s =
     (let (r, s1) = call sys (Mutex_unlock Queue_mutex) s
      in (r, if r = 0 then s1\<lparr>locked := False\<rparr> else s1))"

text \<open>Lines 289 to 301: the entry is written at \<^verbatim>\<open>queue_end\<close>, which advances and wraps.\<close>

definition queue_store :: "ptr \<Rightarrow> ptr \<Rightarrow> ptr \<Rightarrow> state \<Rightarrow> state" where
  "queue_store cobj item cond s =
     s\<lparr>queue := (queue s)[unat (queue_end s) :=
                   Some \<lparr>pair_cobj = cobj,
                         pair_p = (if item \<noteq> NULL then P_item item else P_cond cond)\<rparr>],
       queue_cnt := queue_cnt s + 1,
       queue_end := (if unat (queue_end s) + 1 = unat (queue_max s) then 0
                     else queue_end s + 1)\<rparr>"

text \<open>
  From the label \<^verbatim>\<open>retry\<close>: the test of line 288 is \<^verbatim>\<open>queue_cnt <= queue_max\<close>. A write
  outside the array of slots is undefined.
\<close>

fun add_nolock_retry :: "sys \<Rightarrow> env \<Rightarrow> ptr \<Rightarrow> ptr \<Rightarrow> ptr \<Rightarrow> state \<Rightarrow> (int \<times> env) outcome" where
  "add_nolock_retry sys [] cobj item cond s =
     (if queue_cnt s \<le> queue_max s then
        (if unat (queue_end s) < length (queue s)
         then Returned (0, []) (queue_store cobj item cond s) else Undefined)
      else
        (let (r, s1) = call sys (Cond_wait Queue_notfull) s
         in if r = 0 then Blocked (s1\<lparr>locked := False\<rparr>) else Returned (- 1, []) s1))"
| "add_nolock_retry sys (f # env) cobj item cond s =
     (if queue_cnt s \<le> queue_max s then
        (if unat (queue_end s) < length (queue s)
         then Returned (0, f # env) (queue_store cobj item cond s) else Undefined)
      else
        (let (r, s1) = call sys (Cond_wait Queue_notfull) s
         in if r = 0 then add_nolock_retry sys env cobj item cond ((f s1)\<lparr>locked := True\<rparr>)
            else Returned (- 1, f # env) s1))"

text \<open>
  \<^verbatim>\<open>assume_d(expr, retval)\<close> is compiled in a debug build only, where it returns
  \<open>retval\<close> when \<open>expr\<close> is false.
\<close>

definition probe_icache_add_nolock ::
  "sys \<Rightarrow> env \<Rightarrow> ptr \<Rightarrow> ptr \<Rightarrow> ptr \<Rightarrow> state \<Rightarrow> (int \<times> env) outcome" where
  "probe_icache_add_nolock sys env cobj item cond s =
     (if debug_build sys \<and> \<not> ((cond = NULL) \<noteq> (item = NULL)) then Returned (- 1, env) s
      else add_nolock_retry sys env cobj item cond s)"

definition probe_icache_add ::
  "sys \<Rightarrow> env \<Rightarrow> ptr \<Rightarrow> ptr \<Rightarrow> ptr \<Rightarrow> state \<Rightarrow> (int \<times> env) outcome" where
  "probe_icache_add sys env cache cobj item s =
     (if cache = NULL \<or> cobj = NULL \<or> item = NULL then Returned (- 1, env) s
      else
        (let (r1, s1) = mutex_lock sys s in
         if r1 \<noteq> 0 then Returned (- 1, env) s1
         else
           (case probe_icache_add_nolock sys env cobj item NULL s1 of
              Returned (ret, env') s2 \<Rightarrow>
                (let (r3, s3) = mutex_unlock sys s2 in
                 if r3 \<noteq> 0 then Aborted s3
                 else if ret \<noteq> 0 then Returned (- 1, env') s3
                 else
                   (let (r4, s4) = call sys (Cond_signal Queue_notempty) s3
                    in if r4 \<noteq> 0 then Returned (- 1, env') s4 else Returned (0, env') s4))
            | Exited s2 \<Rightarrow> Exited s2
            | Blocked s2 \<Rightarrow> Blocked s2
            | Aborted s2 \<Rightarrow> Aborted s2
            | Undefined \<Rightarrow> Undefined)))"

text \<open>\<^verbatim>\<open>pthread_cond_destroy\<close>: its return code is not read.\<close>

definition cond_destroy :: "sys \<Rightarrow> ptr \<Rightarrow> state \<Rightarrow> state" where
  "cond_destroy sys cond s = snd (call sys (Cond_destroy (Cond_at cond)) s)"

text \<open>
  \<^verbatim>\<open>probe_icache_nop(cache)\<close>; \<open>cond\<close> is the address of its local condition variable.
\<close>

definition probe_icache_nop :: "sys \<Rightarrow> env \<Rightarrow> ptr \<Rightarrow> state \<Rightarrow> (int \<times> env) outcome" where
  "probe_icache_nop sys env cond s =
     (let (r1, s1) = mutex_lock sys s in
      if r1 \<noteq> 0 then Returned (- 1, env) s1
      else
        (let (r2, s2) = call sys (Cond_init (Cond_at cond)) s1 in
         if r2 \<noteq> 0 then Returned (- 1, env) s2
         else
           (case probe_icache_add_nolock sys env NULL NULL cond s2 of
              Returned (ret, env') s3 \<Rightarrow>
                (if ret \<noteq> 0 then
                   (let (r4, s4) = mutex_unlock sys s3 in
                    if r4 \<noteq> 0 then Aborted s4
                    else Returned (- 1, env') (cond_destroy sys cond s4))
                 else
                   (let (r5, s5) = call sys (Cond_signal Queue_notempty) s3 in
                    if r5 \<noteq> 0 then Returned (- 1, env') (cond_destroy sys cond s5)
                    else
                      (let (r6, s6) = call sys (Cond_wait (Cond_at cond)) s5 in
                       if r6 \<noteq> 0 then Returned (- 1, env') s6
                       else
                         (case env' of
                            [] \<Rightarrow> Blocked (s6\<lparr>locked := False\<rparr>)
                          | f # env'' \<Rightarrow>
                              (let (r7, s7) = mutex_unlock sys ((f s6)\<lparr>locked := True\<rparr>) in
                               if r7 \<noteq> 0 then Aborted s7
                               else Returned (0, env'') (cond_destroy sys cond s7))))))
            | Exited s3 \<Rightarrow> Exited s3
            | Blocked s3 \<Rightarrow> Blocked s3
            | Aborted s3 \<Rightarrow> Aborted s3
            | Undefined \<Rightarrow> Undefined)))"

subsection \<open>The boundary helper \<^verbatim>\<open>probe_item_collect\<close>\<close>

record probe_ctx =
  ctx_filters :: ptr
  ctx_icache :: ptr
  ctx_probe_out :: ptr

definition sexp_free :: "ptr \<Rightarrow> state \<Rightarrow> state" where
  "sexp_free item s = s\<lparr>trace := trace s @ [SEXP_free item]\<rparr>"

definition probe_item_collect ::
  "sys \<Rightarrow> env \<Rightarrow> probe_ctx \<Rightarrow> ptr \<Rightarrow> state \<Rightarrow> (int \<times> env) outcome" where
  "probe_item_collect sys env ctx item s =
     (if ctx_filters ctx \<noteq> NULL \<and> probe_item_filtered sys (heap s item) (ctx_filters ctx)
      then Returned (1, env) (sexp_free item s)
      else
        (case probe_icache_add sys env (ctx_icache ctx) (ctx_probe_out ctx) item s of
           Returned (r, env') s1 \<Rightarrow>
             (if r \<noteq> 0 then Returned (- 1, env') (sexp_free item s1)
              else Returned (0, env') s1)
         | Exited s1 \<Rightarrow> Exited s1
         | Blocked s1 \<Rightarrow> Blocked s1
         | Aborted s1 \<Rightarrow> Aborted s1
         | Undefined \<Rightarrow> Undefined))"

subsection \<open>The worker: \<^verbatim>\<open>probe_icache_worker\<close>\<close>

text \<open>
  The steps of the worker on an entry end with the entry as they leave it and with
  whether the thread goes on: \<open>False\<close> when the thread function returns \<^verbatim>\<open>NULL\<close>.

  Lines 105 to 133, from the label \<^verbatim>\<open>next\<close>: the worker takes the address of the slot at
  \<^verbatim>\<open>queue_beg\<close>, decrements the count, advances \<^verbatim>\<open>queue_beg\<close> when it differs from
  \<^verbatim>\<open>queue_end\<close>, releases the mutex and signals \<^verbatim>\<open>queue_notfull\<close>. The result is the index
  of the slot \<^verbatim>\<open>pair\<close> points to.
\<close>

definition queue_extract :: "state \<Rightarrow> nat \<times> state" where
  "queue_extract s =
     (let pair = unat (queue_beg s);
          s1 = s\<lparr>queue_cnt := queue_cnt s - 1\<rparr>;
          s2 = (if queue_end s1 \<noteq> queue_beg s1
                then s1\<lparr>queue_beg := (if queue_beg s1 + 1 = queue_max s1 then 0
                                       else queue_beg s1 + 1)\<rparr>
                else s1)
      in (pair, s2))"

definition worker_dequeue :: "sys \<Rightarrow> state \<Rightarrow> nat outcome" where
  "worker_dequeue sys s =
     (let (pair, s2) = queue_extract s;
          (r3, s3) = mutex_unlock sys s2 in
      if r3 \<noteq> 0 then Aborted s3
      else
        (let (r4, s4) = call sys (Cond_signal Queue_notfull) s3
         in if r4 \<noteq> 0 then Aborted s4 else Returned pair s4))"

text \<open>
  Lines 136 to 147: an entry with no destination is a synchronisation request.
\<close>

definition worker_nop ::
  "sys \<Rightarrow> probe_iqpair \<Rightarrow> state \<Rightarrow> (probe_iqpair \<times> bool) outcome" where
  "worker_nop sys pair s =
     (if debug_build sys \<and> p_ptr (pair_p pair) = NULL then Returned (pair, False) s
      else
        (let (r, s1) = call sys (Cond_signal (Cond_at (p_ptr (pair_p pair)))) s
         in if r \<noteq> 0 then Aborted s1 else Returned (pair, True) s1))"

text \<open>
  Lines 169 to 172: the index of the first item of the bucket that \<^verbatim>\<open>SEXP_deepcmp\<close>
  finds equal to the incoming one, or \<^verbatim>\<open>count\<close>.
\<close>

function bucket_scan :: "sys \<Rightarrow> state \<Rightarrow> ptr \<Rightarrow> ptr list \<Rightarrow> nat \<Rightarrow> nat" where
  "bucket_scan sys s item cached i =
     (if i < length cached then
        (if SEXP_deepcmp sys (heap s item) (heap s (cached ! i)) then i
         else bucket_scan sys s item cached (i + 1))
      else i)"
  by pat_completeness auto
termination
  by (relation "measure (\<lambda>(sys, s, item, cached, i). length cached - i)") auto

declare bucket_scan.simps [simp del]

text \<open>
  Modelled from the spec: \<^verbatim>\<open>probe_cobj_add_item\<close> is not under src/; it is the
  operation \<open>append(collected, item)\<close> of the spec, which appends the item to the
  destination aggregate or fails.
\<close>

definition probe_cobj_add_item :: "sys \<Rightarrow> ptr \<Rightarrow> ptr \<Rightarrow> state \<Rightarrow> int \<times> state" where
  "probe_cobj_add_item sys cobj item s =
     (let (r, s1) = call sys (Cobj_add_item cobj item) s
      in (r, if r = 0 then s1\<lparr>cobjs := (cobjs s1)(cobj := cobjs s1 cobj @ [item])\<rparr> else s1))"

text \<open>
  Modelled from the spec: \<^verbatim>\<open>rbt_i64_add\<close> is not under src/; it is the operation
  \<open>insert(key, bucket) -> ok | duplicate\<close> of the Dedup Index, which may also fail for
  lack of memory.
\<close>

definition rbt_i64_add :: "sys \<Rightarrow> 64 word \<Rightarrow> ptr list \<Rightarrow> state \<Rightarrow> int \<times> state" where
  "rbt_i64_add sys k cached s =
     (let (r, s1) = call sys (Rbt_i64_add k) s in
      if tree s1 k \<noteq> None then (if r = 0 then 1 else r, s1)
      else (r, if r = 0 then s1\<lparr>tree := (tree s1)(k \<mapsto> cached)\<rparr> else s1))"

text \<open>Line 217 and the three lines after it.\<close>

definition worker_collect ::
  "sys \<Rightarrow> probe_iqpair \<Rightarrow> state \<Rightarrow> (probe_iqpair \<times> bool) outcome" where
  "worker_collect sys pair s =
     (let (r, s1) = probe_cobj_add_item sys (pair_cobj pair) (p_ptr (pair_p pair)) s
      in Returned (pair, r = 0) s1)"

text \<open>
  Lines 149 to 214, for an entry with a destination (a cache request), as far as the
  index goes: the fingerprint of the item, the lookup of the tree (\<^verbatim>\<open>rbt_i64_get\<close>), the
  scan of the bucket. After a miss the item is in the index and stamped, and the result
  is \<open>None\<close>. After a hit the item is released (line 190) and the result is the stored
  item, which line 191 is about to write into the entry.
\<close>

definition worker_lookup :: "sys \<Rightarrow> probe_iqpair \<Rightarrow> state \<Rightarrow> (ptr option) outcome" where
  "worker_lookup sys pair s =
     (let item = p_ptr (pair_p pair);
          item_ID = SEXP_ID_v sys (heap s item)
      in case tree s item_ID of
           Some cached \<Rightarrow>
             (let i = bucket_scan sys s item cached 0 in
              if i = length cached then
                (if int (length cached) = 65535 then Undefined
                 else
                   (case probe_icache_item_setID sys item
                           (s\<lparr>tree := (tree s)(item_ID \<mapsto> cached @ [item])\<rparr>) of
                      Returned u s1 \<Rightarrow> Returned None s1
                    | Exited s1 \<Rightarrow> Exited s1
                    | Blocked s1 \<Rightarrow> Blocked s1
                    | Aborted s1 \<Rightarrow> Aborted s1
                    | Undefined \<Rightarrow> Undefined))
              else Returned (Some (cached ! i)) (sexp_free item s))
         | None \<Rightarrow>
             (case probe_icache_item_setID sys item s of
                Returned u s1 \<Rightarrow>
                  (let (r, s2) = rbt_i64_add sys item_ID [item] s1 in
                   if r \<noteq> 0
                   then Aborted (s2\<lparr>trace := trace s2 @ [Oscap_free_items [item], Oscap_free_citem]\<rparr>)
                   else Returned None s2)
              | Exited s1 \<Rightarrow> Exited s1
              | Blocked s1 \<Rightarrow> Blocked s1
              | Aborted s1 \<Rightarrow> Aborted s1
              | Undefined \<Rightarrow> Undefined))"

text \<open>
  Lines 149 to 220 on an entry that no other thread touches meanwhile: after a hit the
  stored item takes the place of the item in the entry (line 191), and the item of the
  entry is appended to its destination.
\<close>

definition worker_insert ::
  "sys \<Rightarrow> probe_iqpair \<Rightarrow> state \<Rightarrow> (probe_iqpair \<times> bool) outcome" where
  "worker_insert sys pair s =
     (case worker_lookup sys pair s of
        Returned hit s1 \<Rightarrow>
          worker_collect sys (case hit of Some c \<Rightarrow> pair\<lparr>pair_p := P_item c\<rparr> | None \<Rightarrow> pair) s1
      | Exited s1 \<Rightarrow> Exited s1
      | Blocked s1 \<Rightarrow> Blocked s1
      | Aborted s1 \<Rightarrow> Aborted s1
      | Undefined \<Rightarrow> Undefined)"

text \<open>Line 135: the worker tells the two kinds of entry apart by the destination.\<close>

definition worker_pair ::
  "sys \<Rightarrow> probe_iqpair \<Rightarrow> state \<Rightarrow> (probe_iqpair \<times> bool) outcome" where
  "worker_pair sys pair s =
     (if pair_cobj pair = NULL then worker_nop sys pair s else worker_insert sys pair s)"

text \<open>
  The worker handling, in this order, entries that no other thread touches meanwhile:
  lines 135 to 221 for each of them, until one makes the thread stop.
\<close>

fun worker_pairs :: "sys \<Rightarrow> probe_iqpair list \<Rightarrow> state \<Rightarrow> (probe_iqpair list) outcome" where
  "worker_pairs sys [] s = Returned [] s"
| "worker_pairs sys (pair # pairs) s =
     (case worker_pair sys pair s of
        Returned (pair', go) s1 \<Rightarrow>
          (if \<not> go then Exited s1
           else
             (case worker_pairs sys pairs s1 of
                Returned pairs' s2 \<Rightarrow> Returned (pair' # pairs') s2
              | Exited s2 \<Rightarrow> Exited s2
              | Blocked s2 \<Rightarrow> Blocked s2
              | Aborted s2 \<Rightarrow> Aborted s2
              | Undefined \<Rightarrow> Undefined))
      | Exited s1 \<Rightarrow> Exited s1
      | Blocked s1 \<Rightarrow> Blocked s1
      | Aborted s1 \<Rightarrow> Aborted s1
      | Undefined \<Rightarrow> Undefined)"

subsection \<open>The worker, step by step\<close>

text \<open>
  The worker does not copy the entry it takes: \<^verbatim>\<open>pair\<close> is the address of the slot (line
  109), the mutex is released at line 121, and every later \<^verbatim>\<open>pair->cobj\<close> and
  \<^verbatim>\<open>pair->p.item\<close> reads the slot, line 191 writes its \<^verbatim>\<open>p.item\<close>. The count says that
  the slot is free as soon as the worker has taken it, so that a producer may store an
  entry there while the worker is at it. The places of the worker between which the
  other threads are let run here: before its first lock (line 94); waiting on
  \<^verbatim>\<open>queue_notempty\<close> (line 102); at the label \<^verbatim>\<open>next\<close>, holding the mutex; at line 135, with
  the slot it took; at line 191 after a hit, with the slot and the stored item; at line
  216, before the item is appended; at line 221, before it locks the mutex again.
\<close>

datatype wpos = W_start | W_wait | W_next | W_pair nat | W_hit nat ptr | W_add nat | W_lock

text \<open>Reading through \<^verbatim>\<open>pair\<close>: a slot that was never written holds no entry.\<close>

definition slot_read :: "state \<Rightarrow> nat \<Rightarrow> probe_iqpair option" where
  "slot_read s k = (if k < length (queue s) then queue s ! k else None)"

text \<open>
  Line 102: the call of \<^verbatim>\<open>pthread_cond_wait\<close>, which releases the mutex, and its return,
  with the mutex, followed by the \<^verbatim>\<open>assume_d\<close> of line 103.
\<close>

definition worker_sleep :: "sys \<Rightarrow> state \<Rightarrow> wpos outcome" where
  "worker_sleep sys s =
     (let (r, s1) = call sys (Cond_wait Queue_notempty) s
      in if r \<noteq> 0 then Exited s1 else Returned W_wait (s1\<lparr>locked := False\<rparr>))"

definition worker_wake :: "sys \<Rightarrow> state \<Rightarrow> wpos outcome" where
  "worker_wake sys s =
     (let s1 = s\<lparr>locked := True\<rparr>
      in if debug_build sys \<and> \<not> queue_cnt s1 > 0 then Exited s1 else Returned W_next s1)"

text \<open>Lines 94 to 102.\<close>

definition worker_begin :: "sys \<Rightarrow> state \<Rightarrow> wpos outcome" where
  "worker_begin sys s =
     (let (r, s1) = mutex_lock sys s
      in if r \<noteq> 0 then Exited s1 else worker_sleep sys s1)"

text \<open>
  Lines 135 to 214 on the slot \<open>k\<close>, read at line 135: the synchronisation request is
  handled at once; a cache request is looked up, and what remains to do is the write of
  line 191 after a hit, and the call of line 216.
\<close>

definition worker_look :: "sys \<Rightarrow> nat \<Rightarrow> state \<Rightarrow> wpos outcome" where
  "worker_look sys k s =
     (case slot_read s k of
        None \<Rightarrow> Undefined
      | Some pair \<Rightarrow>
          (if pair_cobj pair = NULL then
             (case worker_nop sys pair s of
                Returned (pair', go) s1 \<Rightarrow> if go then Returned W_lock s1 else Exited s1
              | Exited s1 \<Rightarrow> Exited s1
              | Blocked s1 \<Rightarrow> Blocked s1
              | Aborted s1 \<Rightarrow> Aborted s1
              | Undefined \<Rightarrow> Undefined)
           else
             (case worker_lookup sys pair s of
                Returned hit s1 \<Rightarrow>
                  Returned (case hit of Some c \<Rightarrow> W_hit k c | None \<Rightarrow> W_add k) s1
              | Exited s1 \<Rightarrow> Exited s1
              | Blocked s1 \<Rightarrow> Blocked s1
              | Aborted s1 \<Rightarrow> Aborted s1
              | Undefined \<Rightarrow> Undefined)))"

text \<open>
  Line 191, \<^verbatim>\<open>pair->p.item = cached->item[i]\<close>: the member \<^verbatim>\<open>p\<close> of the entry that is in the
  slot now is written, its \<^verbatim>\<open>cobj\<close> is not.
\<close>

definition worker_subst :: "nat \<Rightarrow> ptr \<Rightarrow> state \<Rightarrow> wpos outcome" where
  "worker_subst k c s =
     (case slot_read s k of
        None \<Rightarrow> Undefined
      | Some pair \<Rightarrow>
          Returned (W_add k) (s\<lparr>queue := (queue s)[k := Some (pair\<lparr>pair_p := P_item c\<rparr>)]\<rparr>))"

text \<open>
  Lines 216 to 219, \<^verbatim>\<open>probe_cobj_add_item(pair->cobj, pair->p.item)\<close>, on the entry that
  is in the slot now.
\<close>

definition worker_append :: "sys \<Rightarrow> nat \<Rightarrow> state \<Rightarrow> wpos outcome" where
  "worker_append sys k s =
     (case slot_read s k of
        None \<Rightarrow> Undefined
      | Some pair \<Rightarrow>
          (case worker_collect sys pair s of
             Returned (pair', go) s1 \<Rightarrow> if go then Returned W_lock s1 else Exited s1
           | Exited s1 \<Rightarrow> Exited s1
           | Blocked s1 \<Rightarrow> Blocked s1
           | Aborted s1 \<Rightarrow> Aborted s1
           | Undefined \<Rightarrow> Undefined))"

text \<open>
  Lines 221 to 230: with the mutex again, the worker takes the next entry when the count
  is positive, and waits otherwise.
\<close>

definition worker_relock :: "sys \<Rightarrow> state \<Rightarrow> wpos outcome" where
  "worker_relock sys s =
     (let (r, s1) = mutex_lock sys s in
      if r \<noteq> 0 then Exited s1
      else if queue_cnt s1 > 0 then Returned W_next s1
      else worker_sleep sys s1)"

text \<open>
  Whether \<^verbatim>\<open>queue_notempty\<close> was signalled since the worker started to wait on it: a
  signal that finds nobody waiting is lost.
\<close>

definition notempty_signalled :: "state \<Rightarrow> bool" where
  "notempty_signalled s =
     (Cond_signal Queue_notempty \<in>
        set (takeWhile (\<lambda>e. e \<noteq> Cond_wait Queue_notempty) (rev (trace s))))"

text \<open>
  One step of the worker from a place to the next one. \<open>Blocked\<close> is a worker that
  cannot move now: the mutex is held by another thread, or nobody has signalled
  \<^verbatim>\<open>queue_notempty\<close>.
\<close>

definition worker_step :: "sys \<Rightarrow> wpos \<Rightarrow> state \<Rightarrow> wpos outcome" where
  "worker_step sys w s =
     (case w of
        W_start \<Rightarrow> if locked s then Blocked s else worker_begin sys s
      | W_wait \<Rightarrow> if locked s \<or> \<not> notempty_signalled s then Blocked s else worker_wake sys s
      | W_next \<Rightarrow>
          (case worker_dequeue sys s of
             Returned k s1 \<Rightarrow> Returned (W_pair k) s1
           | Exited s1 \<Rightarrow> Exited s1
           | Blocked s1 \<Rightarrow> Blocked s1
           | Aborted s1 \<Rightarrow> Aborted s1
           | Undefined \<Rightarrow> Undefined)
      | W_pair k \<Rightarrow> worker_look sys k s
      | W_hit k c \<Rightarrow> worker_subst k c s
      | W_add k \<Rightarrow> worker_append sys k s
      | W_lock \<Rightarrow> if locked s then Blocked s else worker_relock sys s)"

subsection \<open>\<^verbatim>\<open>probe_icache_new\<close> and the states a cache goes through\<close>

text \<open>
  \<^verbatim>\<open>probe_icache_new()\<close>, with the value of \<^verbatim>\<open>PROBE_IQUEUE_CAPACITY\<close> (icache.h is not
  under src/) as a parameter: the number of slots of the queue and the value of
  \<^verbatim>\<open>queue_max\<close>. The result says whether a cache is returned.
\<close>

definition icache_new_fail :: "state \<Rightarrow> bool \<times> state" where
  "icache_new_fail s =
     (False, s\<lparr>trace := trace s @ [Mutex_destroy Queue_mutex, Cond_destroy Queue_notempty]\<rparr>)"

definition probe_icache_new :: "sys \<Rightarrow> 16 word \<Rightarrow> state \<Rightarrow> bool \<times> state" where
  "probe_icache_new sys capacity s0 =
     (let s1 = s0\<lparr>tree := Map.empty, queue := replicate (unat capacity) None, locked := False\<rparr>;
          (r1, s2) = call sys (Mutex_init Queue_mutex) s1 in
      if r1 \<noteq> 0 then icache_new_fail s2
      else
        (let s3 = s2\<lparr>queue_beg := 0, queue_end := 0, queue_cnt := 0, queue_max := capacity\<rparr>;
             (r4, s4) = call sys (Cond_init Queue_notempty) s3 in
         if r4 \<noteq> 0 then icache_new_fail s4
         else
           (let (r5, s5) = call sys (Cond_init Queue_notfull) s4 in
            if r5 \<noteq> 0 then icache_new_fail s5
            else
              (let (r6, s6) = call sys Thread_create s5
               in if r6 \<noteq> 0 then icache_new_fail s6 else (True, s6)))))"

text \<open>
  The threads of a process, interleaved. A producer calls \<^verbatim>\<open>probe_icache_add\<close> or
  \<^verbatim>\<open>probe_icache_nop\<close> (whose local condition variable has an address) when the mutex is
  free; the call is one step, and a call that has to wait leaves the memory as it is
  when it starts to wait, its thread waiting from then on. The worker thread, which
  \<^verbatim>\<open>probe_icache_new\<close> has created, moves from one of its places to the next. A step
  that cannot be taken, and a step in which the process aborts or the worker thread
  ends, has no successor. The source lets the threads alternate at more places
  than these: every run here is a run of the program.
\<close>

datatype action = Call_add ptr ptr ptr | Call_nop ptr | Worker_moves

fun step :: "sys \<Rightarrow> action \<Rightarrow> wpos \<times> state \<Rightarrow> (wpos \<times> state) option" where
  "step sys (Call_add cache cobj item) (w, s) =
     (if locked s then None
      else
        (case probe_icache_add sys [] cache cobj item s of
           Returned r s1 \<Rightarrow> Some (w, s1)
         | Blocked s1 \<Rightarrow> Some (w, s1)
         | _ \<Rightarrow> None))"
| "step sys (Call_nop cond) (w, s) =
     (if locked s \<or> cond = NULL then None
      else
        (case probe_icache_nop sys [] cond s of
           Returned r s1 \<Rightarrow> Some (w, s1)
         | Blocked s1 \<Rightarrow> Some (w, s1)
         | _ \<Rightarrow> None))"
| "step sys Worker_moves (w, s) =
     (case worker_step sys w s of
        Returned w1 s1 \<Rightarrow> Some (w1, s1)
      | _ \<Rightarrow> None)"

fun run :: "sys \<Rightarrow> action list \<Rightarrow> wpos \<times> state \<Rightarrow> (wpos \<times> state) option" where
  "run sys [] c = Some c"
| "run sys (a # acts) c =
     (case step sys a c of
        None \<Rightarrow> None
      | Some c1 \<Rightarrow> run sys acts c1)"

text \<open>A process that has created a cache of the given capacity, and what it does then.\<close>

definition process :: "sys \<Rightarrow> 16 word \<Rightarrow> state \<Rightarrow> action list \<Rightarrow> (wpos \<times> state) option" where
  "process sys capacity s0 acts =
     (case probe_icache_new sys capacity s0 of
        (ok, s) \<Rightarrow> if ok then run sys acts (W_start, s) else None)"

subsection \<open>Concrete inputs\<close>

text \<open>
  An item \<^verbatim>\<open>((file_item :id "") v)\<close>; a comparison that ignores the identifier; a
  fingerprint under which all items collide; a process 42 whose calls all succeed.
\<close>

definition ex_item :: "string \<Rightarrow> sexp" where
  "ex_item v =
     SEXP_list [SEXP_list [SEXP_string ''file_item'', SEXP_string '':id'', SEXP_string []],
                SEXP_string v]"

definition ex_deepcmp :: "sexp \<Rightarrow> sexp \<Rightarrow> bool" where
  "ex_deepcmp a b = (item_replace_id a (SEXP_string []) = item_replace_id b (SEXP_string []))"

definition ex_sys :: sys where
  "ex_sys = \<lparr>have_atomic_functions = True, debug_build = False, getpid = 42,
     SEXP_ID_v = (\<lambda>x. 7), SEXP_deepcmp = ex_deepcmp,
     probe_item_filtered = (\<lambda>x f. False), rc = (\<lambda>tr e. 0)\<rparr>"

text \<open>
  A cache of four slots, as \<^verbatim>\<open>probe_icache_new\<close> leaves it, in a memory where the items
  at 11 and 13 are equal, as are those at 12 and 14.
\<close>

definition ex_heap :: "ptr \<Rightarrow> sexp" where
  "ex_heap x = (if x = 11 \<or> x = 13 then ex_item ''A''
                else if x = 12 \<or> x = 14 then ex_item ''B'' else ex_item ''C'')"

definition ex_state :: state where
  "ex_state = \<lparr>queue = replicate 4 None, queue_beg = 0, queue_end = 0, queue_cnt = 0,
     queue_max = 4, tree = Map.empty, heap = ex_heap, cobjs = (\<lambda>d. []), next_ID = 0,
     locked = False, trace = []\<rparr>"

text \<open>A producer submitting items one after the other, none of which has to wait.\<close>

fun submit_items :: "sys \<Rightarrow> ptr \<Rightarrow> ptr \<Rightarrow> ptr list \<Rightarrow> state \<Rightarrow> state option" where
  "submit_items sys cache cobj [] s = Some s"
| "submit_items sys cache cobj (item # items) s =
     (case probe_icache_add sys [] cache cobj item s of
        Returned (r, e) s1 \<Rightarrow> if r = 0 then submit_items sys cache cobj items s1 else None
      | _ \<Rightarrow> None)"

definition ex_ctx :: probe_ctx where
  "ex_ctx = \<lparr>ctx_filters = 3, ctx_icache = 1, ctx_probe_out = 2\<rparr>"

text \<open>
  Processes in which one call fails: the initialisation of the condition variable at 9,
  waiting on \<^verbatim>\<open>queue_notfull\<close>, the insertion into the tree.
\<close>

definition ex_sys_init_fails :: sys where
  "ex_sys_init_fails = ex_sys\<lparr>rc := (\<lambda>tr e. if e = Cond_init (Cond_at 9) then 12 else 0)\<rparr>"

definition ex_sys_wait_fails :: sys where
  "ex_sys_wait_fails = ex_sys\<lparr>rc := (\<lambda>tr e. if e = Cond_wait Queue_notfull then 22 else 0)\<rparr>"

definition ex_sys_add_fails :: sys where
  "ex_sys_add_fails = ex_sys\<lparr>rc := (\<lambda>tr e. if e = Rbt_i64_add 7 then 12 else 0)\<rparr>"

text \<open>A queue of four slots that counts five entries.\<close>

definition ex_overfull :: state where
  "ex_overfull = ex_state\<lparr>queue := replicate 4 (Some \<lparr>pair_cobj = 2, pair_p = P_item 11\<rparr>),
     queue_cnt := 5, queue_end := 1\<rparr>"

definition ex_pair :: "ptr \<Rightarrow> probe_iqpair" where
  "ex_pair item = \<lparr>pair_cobj = 2, pair_p = P_item item\<rparr>"

text \<open>
  A run of two producer calls and the worker: the worker starts and waits; the items 11
  and 13, which are equal, are submitted for the destination 2; the worker wakes up,
  takes the entry of slot 0, handles it (a miss: item 11 is stored and stamped), locks
  the mutex again and takes the entry of slot 1, which is the Insert of item 13. It is
  then at line 135.
\<close>

definition ex_taken :: "action list" where
  "ex_taken =
     [Worker_moves, Call_add 1 2 11, Call_add 1 2 13,
      Worker_moves, Worker_moves, Worker_moves, Worker_moves, Worker_moves, Worker_moves]"

text \<open>
  The run goes on: the worker finds item 13 equal to the stored item 11 and releases it
  (line 190). Before it executes line 191, producers submit the items 12, 14 and 15 for
  the destination 2 and then, when \<open>d\<close> is \<^verbatim>\<open>NULL\<close>, call \<^verbatim>\<open>probe_icache_nop\<close>, otherwise
  submit item 16 for the destination \<open>d\<close>.
\<close>

definition ex_overtaken :: "ptr \<Rightarrow> action list" where
  "ex_overtaken d =
     ex_taken @ [Worker_moves, Call_add 1 2 12, Call_add 1 2 14, Call_add 1 2 15] @
     (if d = NULL then [Call_nop 9] else [Call_add 1 d 16])"

subsection \<open>The tags of the entries\<close>

text \<open>
  An entry is well tagged when it is an Insert (the item member of the union was
  written) with a destination and an item, or a Barrier (the condition member was
  written) with no destination and a condition variable.
\<close>

definition pair_tagged :: "probe_iqpair \<Rightarrow> bool" where
  "pair_tagged e =
     (case pair_p e of
        P_item x \<Rightarrow> pair_cobj e \<noteq> NULL \<and> x \<noteq> NULL
      | P_cond c \<Rightarrow> pair_cobj e = NULL \<and> c \<noteq> NULL)"

subsection \<open>What the deduplication relies on, and what it keeps\<close>

definition item_of :: "probe_iqpair \<Rightarrow> ptr" where
  "item_of e = p_ptr (pair_p e)"

definition is_insert :: "probe_iqpair \<Rightarrow> bool" where
  "is_insert e = (pair_cobj e \<noteq> NULL)"

text \<open>The items stored under a fingerprint.\<close>

definition bucket_of :: "state \<Rightarrow> 64 word \<Rightarrow> ptr list" where
  "bucket_of s k = (case tree s k of None \<Rightarrow> [] | Some cached \<Rightarrow> cached)"

text \<open>The canonical items: the items of the buckets of the index.\<close>

definition canonical :: "state \<Rightarrow> ptr set" where
  "canonical s = {q. \<exists>k. q \<in> set (bucket_of s k)}"

text \<open>
  The contract of the collaborator's comparison: \<^verbatim>\<open>SEXP_deepcmp\<close> is symmetric and
  transitive, and it does not look at the stamp the cache writes into an item.
\<close>

definition deepcmp_equiv :: "sys \<Rightarrow> bool" where
  "deepcmp_equiv sys =
     ((\<forall>a b. SEXP_deepcmp sys a b \<longrightarrow> SEXP_deepcmp sys b a) \<and>
      (\<forall>a b c. SEXP_deepcmp sys a b \<longrightarrow> SEXP_deepcmp sys b c \<longrightarrow> SEXP_deepcmp sys a c) \<and>
      (\<forall>a b v. SEXP_deepcmp sys (item_replace_id a v) b = SEXP_deepcmp sys a b))"

text \<open>
  The invariant of the index, relative to the contents \<open>h0\<close> the items had when they
  were submitted: a bucket holds distinct items whose fingerprint is its key, no item of
  a bucket is equal to an earlier one of the same bucket, and an item differs from its
  submitted content by its stamp at most, and not at all unless it is canonical.
\<close>

definition dedup_inv :: "sys \<Rightarrow> (ptr \<Rightarrow> sexp) \<Rightarrow> state \<Rightarrow> bool" where
  "dedup_inv sys h0 s =
     ((\<forall>k. distinct (bucket_of s k) \<and>
         (\<forall>q \<in> set (bucket_of s k). SEXP_ID_v sys (h0 q) = k) \<and>
         (\<forall>m n. m < n \<and> n < length (bucket_of s k) \<longrightarrow>
            \<not> SEXP_deepcmp sys (h0 (bucket_of s k ! n)) (h0 (bucket_of s k ! m)))) \<and>
      (\<forall>x. x \<notin> canonical s \<longrightarrow> heap s x = h0 x) \<and>
      (\<forall>x. heap s x = h0 x \<or> (\<exists>v. heap s x = item_replace_id (h0 x) v)))"

text \<open>
  The entries a producer hands to the worker: the items of the Inserts are at distinct
  addresses, none of which is a canonical item yet.
\<close>

definition fresh_items :: "probe_iqpair list \<Rightarrow> state \<Rightarrow> bool" where
  "fresh_items pairs s =
     (distinct (map item_of (filter is_insert pairs)) \<and>
      (\<forall>e \<in> set pairs. is_insert e \<longrightarrow> item_of e \<notin> canonical s))"

text \<open>The counter value of the stamp that the next stamping writes.\<close>

definition next_stamp :: "sys \<Rightarrow> state \<Rightarrow> nat" where
  "next_stamp sys s = unat (next_ID s + (if have_atomic_functions sys then 0 else 1))"

text \<open>The Inserts of a list carry items that exist and have a stamp field.\<close>

definition items_wf :: "probe_iqpair list \<Rightarrow> (ptr \<Rightarrow> sexp) \<Rightarrow> bool" where
  "items_wf pairs h0 =
     (\<forall>e \<in> set pairs. is_insert e \<longrightarrow> item_of e \<noteq> NULL \<and> item_id (h0 (item_of e)) \<noteq> None)"

text \<open>
  The invariant of the stamps: every canonical item carries a stamp of this process
  whose counter value is below the next one to be minted, and no two canonical items
  carry the same stamp.
\<close>

definition stamp_inv :: "sys \<Rightarrow> state \<Rightarrow> bool" where
  "stamp_inv sys s =
     ((\<forall>q \<in> canonical s. \<exists>c < next_stamp sys s.
          item_id (heap s q) = Some (SEXP_string (stamp_format (getpid sys) c))) \<and>
      (\<forall>q \<in> canonical s. \<forall>q' \<in> canonical s.
          item_id (heap s q) = item_id (heap s q') \<longrightarrow> q = q'))"

section \<open>Properties\<close>

subsection \<open>Stamps\<close>

lemma format_stamp: "format_u Literal ''1%05u%u'' [pid, c] = stamp_format pid c"
  by (simp add: stamp_format_def pad_field_def is_digit_def digit_val_def)

lemma item_id_replace:
  "item_id x \<noteq> None \<Longrightarrow> item_id (item_replace_id x v) = Some v"
  by (auto simp: item_id_def item_replace_id_def SEXP_list_replace_def
        split: sexp.splits list.splits)

lemma next_local_id_heap:
  "next_local_id sys s = Returned l s1 \<Longrightarrow> heap s1 = heap s"
  by (auto simp: next_local_id_def call_def Let_def split: if_splits prod.splits)

text \<open>
  Claim C4. The stamp that \<^verbatim>\<open>probe_icache_item_setID\<close> writes into an item that has a
  stamp field is the string made of \<open>1\<close>, the process identifier zero-padded to five
  digits and the counter value it minted, in decimal without padding.
\<close>

theorem setID_stamp_format:
  assumes "probe_icache_item_setID sys item s = Returned u s'"
    and "item \<noteq> NULL" and "item_id (heap s item) \<noteq> None"
  shows "\<exists>local_id s1. next_local_id sys s = Returned local_id s1 \<and>
           item_id (heap s' item) =
             Some (SEXP_string (stamp_format (getpid sys) (unat local_id)))"
proof -
  from assms(3) have lp: "SEXP_listp (heap s item)"
    by (auto simp: item_id_def SEXP_listp_def split: sexp.splits)
  with assms(1,2) obtain local_id s1 where
    n: "next_local_id sys s = Returned local_id s1" and
    s': "s' = s1\<lparr>heap := (heap s1)(item := item_replace_id (heap s1 item)
              (SEXP_string_newf ''1%05u%u'' [getpid sys, unat local_id]))\<rparr>"
    by (auto simp: probe_icache_item_setID_def split: outcome.splits)
  from n have "heap s1 = heap s" by (rule next_local_id_heap)
  with assms(3) s' have "item_id (heap s' item) =
      Some (SEXP_string_newf ''1%05u%u'' [getpid sys, unat local_id])"
    by (simp add: item_id_replace)
  with n show ?thesis unfolding SEXP_string_newf_def format_stamp by blast
qed

theorem setID_stamp_format_witness:
  "\<exists>s'. probe_icache_item_setID ex_sys 11 ex_state = Returned () s' \<and>
        item_id (heap s' 11) = Some (SEXP_string ''1000420'')"
proof -
  have "\<exists>s'. probe_icache_item_setID ex_sys 11 ex_state = Returned () s'"
    by (simp add: probe_icache_item_setID_def next_local_id_def ex_sys_def)
  then obtain s' where r: "probe_icache_item_setID ex_sys 11 ex_state = Returned () s'" ..
  have n: "next_local_id ex_sys ex_state = Returned 0 (ex_state\<lparr>next_ID := 1\<rparr>)"
    by (simp add: next_local_id_def ex_sys_def ex_state_def)
  have "item_id (heap ex_state 11) \<noteq> None"
    by (simp add: ex_state_def ex_heap_def ex_item_def item_id_def)
  from setID_stamp_format [OF r _ this] n
  have "item_id (heap s' 11) =
      Some (SEXP_string (stamp_format (getpid ex_sys) (unat (0 :: 32 word))))"
    by (auto simp: NULL_def)
  moreover have "stamp_format (getpid ex_sys) (unat (0 :: 32 word)) = ''1000420''"
    by (simp add: ex_sys_def stamp_format_def decimal.simps digit_char_def numeral_3_eq_3)
  ultimately show ?thesis using r by simp
qed

text \<open>
  Claim C5. The two variants of the minting do not give the same identifier: from the
  same value of \<^verbatim>\<open>next_ID\<close>, the variant with atomic functions returns the value before
  the increment and the variant with the mutex the value after it. Both leave the
  counter one higher, so the \<open>n\<close>-th call gets \<open>n - 1\<close> in the first and \<open>n\<close> in the
  second.
\<close>

theorem minting_variants_differ:
  "\<exists>s1 s2. next_local_id (ex_sys\<lparr>have_atomic_functions := True\<rparr>) s = Returned (next_ID s) s1 \<and>
     next_local_id (ex_sys\<lparr>have_atomic_functions := False\<rparr>) s = Returned (next_ID s + 1) s2 \<and>
     next_ID s1 = next_ID s + 1 \<and> next_ID s2 = next_ID s + 1 \<and> next_ID s + 1 \<noteq> next_ID s"
  by (simp add: next_local_id_def ex_sys_def call_def)

subsection \<open>The work queue\<close>

text \<open>
  Claim C2. The count of the queue does not stay within the capacity: in a cache of four
  slots, four submissions fill the queue, and the fifth is stored all the same, over the
  oldest entry, which leaves a count of five.
\<close>

theorem add_stores_when_full:
  "map_option (\<lambda>s. (queue_cnt s, queue_max s, queue_end s))
     (submit_items ex_sys 1 2 [11, 12, 13, 14] ex_state)
     = Some (4, 4, 0) \<and>
   map_option (\<lambda>s. (queue_cnt s, queue_max s, queue s ! 0))
     (submit_items ex_sys 1 2 [11, 12, 13, 14, 15] ex_state)
     = Some (5, 4, Some \<lparr>pair_cobj = 2, pair_p = P_item 15\<rparr>)"
  by code_simp

text \<open>
  Claim C6. Taking an entry from a full queue does not advance the head: in a cache of
  four slots holding four entries, \<^verbatim>\<open>queue_beg\<close> and \<^verbatim>\<open>queue_end\<close> are both 0, the worker
  takes the entry of slot 0 and decrements the count to 3, but leaves \<^verbatim>\<open>queue_beg\<close> at 0,
  so that its next turn takes slot 0 again.
\<close>

theorem dequeue_full_keeps_head:
  "map_option (\<lambda>s. (queue_beg s, queue_end s, queue_cnt s, queue_max s,
       fst (queue_extract s), queue_beg (snd (queue_extract s)),
       queue_cnt (snd (queue_extract s)), fst (queue_extract (snd (queue_extract s)))))
     (submit_items ex_sys 1 2 [11, 12, 13, 14] ex_state)
   = Some (0, 0, 4, 4, 0, 0, 3, 0)"
  by code_simp

subsection \<open>The boundary helper\<close>

lemma probe_icache_add_nil_trace:
  "probe_icache_add sys [] cache cobj item s = Returned (r, e) s1 \<Longrightarrow>
     \<exists>es. trace s1 = trace s @ es \<and> (\<forall>x. SEXP_free x \<notin> set es)"
  by (auto simp: probe_icache_add_def probe_icache_add_nolock_def mutex_lock_def
        mutex_unlock_def call_def Let_def queue_store_def
        split: if_splits prod.splits outcome.splits)

text \<open>
  Claim C8. \<^verbatim>\<open>probe_item_collect\<close>: when the filters reject the item, it releases the item
  and returns 1; otherwise, when \<^verbatim>\<open>probe_icache_add\<close> returns a failure, it releases the
  item and returns -1, and when \<^verbatim>\<open>probe_icache_add\<close> returns 0 it returns 0 and leaves
  the memory as \<^verbatim>\<open>probe_icache_add\<close> left it, in which (when no other thread ran in
  between) the item has not been released. It returns no other value.
\<close>

theorem collect_result:
  "(ctx_filters ctx \<noteq> NULL \<and> probe_item_filtered sys (heap s item) (ctx_filters ctx) \<longrightarrow>
      probe_item_collect sys env ctx item s =
        Returned (1, env) (s\<lparr>trace := trace s @ [SEXP_free item]\<rparr>)) \<and>
   (\<not> (ctx_filters ctx \<noteq> NULL \<and> probe_item_filtered sys (heap s item) (ctx_filters ctx)) \<longrightarrow>
      (\<forall>r env' s1.
         probe_icache_add sys env (ctx_icache ctx) (ctx_probe_out ctx) item s
           = Returned (r, env') s1 \<longrightarrow>
         (r \<noteq> 0 \<longrightarrow> probe_item_collect sys env ctx item s =
                       Returned (- 1, env') (s1\<lparr>trace := trace s1 @ [SEXP_free item]\<rparr>)) \<and>
         (r = 0 \<longrightarrow> probe_item_collect sys env ctx item s = Returned (0, env') s1 \<and>
                    (env = [] \<longrightarrow>
                       (\<exists>es. trace s1 = trace s @ es \<and> SEXP_free item \<notin> set es))))) \<and>
   (\<forall>v s'. probe_item_collect sys env ctx item s = Returned v s' \<longrightarrow> fst v \<in> {0, 1, - 1})"
  by (auto simp: probe_item_collect_def sexp_free_def split: outcome.splits
        dest!: probe_icache_add_nil_trace)

theorem collect_result_witness:
  "probe_item_collect (ex_sys\<lparr>probe_item_filtered := (\<lambda>x f. True)\<rparr>) [] ex_ctx 11 ex_state
     = Returned (1, []) (ex_state\<lparr>trace := [SEXP_free 11]\<rparr>) \<and>
   probe_item_collect ex_sys [] (ex_ctx\<lparr>ctx_icache := NULL\<rparr>) 11 ex_state
     = Returned (- 1, []) (ex_state\<lparr>trace := [SEXP_free 11]\<rparr>) \<and>
   (\<exists>s1. probe_item_collect ex_sys [] ex_ctx 11 ex_state = Returned (0, []) s1 \<and>
         SEXP_free 11 \<notin> set (trace s1))"
proof (intro conjI)
  show "probe_item_collect (ex_sys\<lparr>probe_item_filtered := (\<lambda>x f. True)\<rparr>) [] ex_ctx 11 ex_state
     = Returned (1, []) (ex_state\<lparr>trace := [SEXP_free 11]\<rparr>)"
    using collect_result [where sys = "ex_sys\<lparr>probe_item_filtered := (\<lambda>x f. True)\<rparr>"
        and ctx = ex_ctx and s = ex_state and item = 11 and env = "[]"]
    by (simp add: ex_ctx_def NULL_def ex_state_def)
next
  have "probe_icache_add ex_sys [] NULL 2 11 ex_state = Returned (- 1, []) ex_state"
    by (simp add: probe_icache_add_def)
  then show "probe_item_collect ex_sys [] (ex_ctx\<lparr>ctx_icache := NULL\<rparr>) 11 ex_state
     = Returned (- 1, []) (ex_state\<lparr>trace := [SEXP_free 11]\<rparr>)"
    using collect_result [where sys = ex_sys and ctx = "ex_ctx\<lparr>ctx_icache := NULL\<rparr>"
        and s = ex_state and item = 11 and env = "[]"]
    by (simp add: ex_ctx_def ex_sys_def ex_state_def)
next
  have "\<exists>s1. probe_icache_add ex_sys [] 1 2 11 ex_state = Returned (0, []) s1"
    by (simp add: probe_icache_add_def probe_icache_add_nolock_def mutex_lock_def
        mutex_unlock_def call_def queue_store_def NULL_def ex_sys_def ex_state_def)
  then obtain s1 where a: "probe_icache_add ex_sys [] 1 2 11 ex_state = Returned (0, []) s1" ..
  with collect_result [where sys = ex_sys and ctx = ex_ctx and s = ex_state and item = 11
      and env = "[]"]
  have "probe_item_collect ex_sys [] ex_ctx 11 ex_state = Returned (0, []) s1 \<and>
      (\<exists>es. trace s1 = trace ex_state @ es \<and> SEXP_free 11 \<notin> set es)"
    by (simp add: ex_ctx_def ex_sys_def)
  then show "\<exists>s1. probe_item_collect ex_sys [] ex_ctx 11 ex_state = Returned (0, []) s1 \<and>
         SEXP_free 11 \<notin> set (trace s1)"
    by (auto simp: ex_state_def)
qed

subsection \<open>The barrier operation\<close>

text \<open>
  Claim C10. In \<^verbatim>\<open>probe_icache_nop\<close>, when the queue mutex has been locked and the
  initialisation of the condition variable fails, the call returns -1 and the mutex is
  still held: it has made the two calls and no other. When instead the enqueue helper
  fails, the mutex is released before the call returns -1.
\<close>

theorem nop_cond_init_failure_keeps_mutex:
  "(rc sys (trace s) (Mutex_lock Queue_mutex) = 0 \<longrightarrow>
    rc sys (trace s @ [Mutex_lock Queue_mutex]) (Cond_init (Cond_at cond)) \<noteq> 0 \<longrightarrow>
      probe_icache_nop sys env cond s =
        Returned (- 1, env)
          (s\<lparr>locked := True,
             trace := trace s @ [Mutex_lock Queue_mutex, Cond_init (Cond_at cond)]\<rparr>)) \<and>
   (\<forall>ret env' s3.
      rc sys (trace s) (Mutex_lock Queue_mutex) = 0 \<longrightarrow>
      rc sys (trace s @ [Mutex_lock Queue_mutex]) (Cond_init (Cond_at cond)) = 0 \<longrightarrow>
      probe_icache_add_nolock sys env NULL NULL cond
        (s\<lparr>locked := True,
           trace := trace s @ [Mutex_lock Queue_mutex, Cond_init (Cond_at cond)]\<rparr>)
        = Returned (ret, env') s3 \<longrightarrow>
      ret \<noteq> 0 \<longrightarrow>
      rc sys (trace s3) (Mutex_unlock Queue_mutex) = 0 \<longrightarrow>
      probe_icache_nop sys env cond s =
        Returned (- 1, env')
          (s3\<lparr>locked := False,
              trace := trace s3 @ [Mutex_unlock Queue_mutex, Cond_destroy (Cond_at cond)]\<rparr>))"
  by (auto simp: probe_icache_nop_def mutex_lock_def mutex_unlock_def call_def
        cond_destroy_def Let_def)

theorem nop_cond_init_failure_keeps_mutex_witness:
  "probe_icache_nop ex_sys_init_fails [] 9 ex_state =
     Returned (- 1, [])
       (ex_state\<lparr>locked := True, trace := [Mutex_lock Queue_mutex, Cond_init (Cond_at 9)]\<rparr>) \<and>
   probe_icache_nop ex_sys_wait_fails [] 9 ex_overfull =
     Returned (- 1, [])
       (ex_overfull\<lparr>locked := False,
          trace := [Mutex_lock Queue_mutex, Cond_init (Cond_at 9), Cond_wait Queue_notfull,
                    Mutex_unlock Queue_mutex, Cond_destroy (Cond_at 9)]\<rparr>)"
proof
  show "probe_icache_nop ex_sys_init_fails [] 9 ex_state =
     Returned (- 1, [])
       (ex_state\<lparr>locked := True, trace := [Mutex_lock Queue_mutex, Cond_init (Cond_at 9)]\<rparr>)"
    using nop_cond_init_failure_keeps_mutex
      [where sys = ex_sys_init_fails and s = ex_state and cond = 9 and env = "[]"]
    by (simp add: ex_sys_init_fails_def ex_sys_def ex_state_def)
next
  have "probe_icache_add_nolock ex_sys_wait_fails [] NULL NULL 9
        (ex_overfull\<lparr>locked := True,
           trace := trace ex_overfull @ [Mutex_lock Queue_mutex, Cond_init (Cond_at 9)]\<rparr>)
        = Returned (- 1, [])
            (ex_overfull\<lparr>locked := True,
               trace := [Mutex_lock Queue_mutex, Cond_init (Cond_at 9),
                         Cond_wait Queue_notfull]\<rparr>)"
    by (simp add: probe_icache_add_nolock_def ex_sys_wait_fails_def ex_sys_def
        ex_overfull_def ex_state_def call_def NULL_def)
  with nop_cond_init_failure_keeps_mutex
    [where sys = ex_sys_wait_fails and s = ex_overfull and cond = 9 and env = "[]"]
  show "probe_icache_nop ex_sys_wait_fails [] 9 ex_overfull =
     Returned (- 1, [])
       (ex_overfull\<lparr>locked := False,
          trace := [Mutex_lock Queue_mutex, Cond_init (Cond_at 9), Cond_wait Queue_notfull,
                    Mutex_unlock Queue_mutex, Cond_destroy (Cond_at 9)]\<rparr>)"
    by (simp add: ex_sys_wait_fails_def ex_sys_def ex_overfull_def ex_state_def)
qed

subsection \<open>The worker and the index\<close>

text \<open>Lines 149 to 220 on an entry that no other thread touches, in one piece.\<close>

lemma worker_insert_unfold:
  "worker_insert sys pair s =
     (let item = p_ptr (pair_p pair);
          item_ID = SEXP_ID_v sys (heap s item)
      in case tree s item_ID of
           Some cached \<Rightarrow>
             (let i = bucket_scan sys s item cached 0 in
              if i = length cached then
                (if int (length cached) = 65535 then Undefined
                 else
                   (case probe_icache_item_setID sys item
                           (s\<lparr>tree := (tree s)(item_ID \<mapsto> cached @ [item])\<rparr>) of
                      Returned u s1 \<Rightarrow> worker_collect sys pair s1
                    | Exited s1 \<Rightarrow> Exited s1
                    | Blocked s1 \<Rightarrow> Blocked s1
                    | Aborted s1 \<Rightarrow> Aborted s1
                    | Undefined \<Rightarrow> Undefined))
              else
                worker_collect sys (pair\<lparr>pair_p := P_item (cached ! i)\<rparr>) (sexp_free item s))
         | None \<Rightarrow>
             (case probe_icache_item_setID sys item s of
                Returned u s1 \<Rightarrow>
                  (let (r, s2) = rbt_i64_add sys item_ID [item] s1 in
                   if r \<noteq> 0
                   then Aborted (s2\<lparr>trace := trace s2 @ [Oscap_free_items [item], Oscap_free_citem]\<rparr>)
                   else worker_collect sys pair s2)
              | Exited s1 \<Rightarrow> Exited s1
              | Blocked s1 \<Rightarrow> Blocked s1
              | Aborted s1 \<Rightarrow> Aborted s1
              | Undefined \<Rightarrow> Undefined))"
  by (simp add: worker_insert_def worker_lookup_def Let_def
      split: option.splits outcome.splits prod.splits)

text \<open>
  Claim C7, as the spec states it: when the insertion of a new bucket into the index
  fails, the bucket and the incoming item are released. The item is not: the worker
  releases the bucket's array and the bucket, and the process is aborted.
\<close>

theorem index_failure_frees_item_counterexample:
  "tree ex_state (SEXP_ID_v ex_sys_add_fails (heap ex_state 11)) = None \<and>
   fst (rbt_i64_add ex_sys_add_fails 7 [11] ex_state) \<noteq> 0 \<and>
   (\<exists>s'. worker_pair ex_sys_add_fails (ex_pair 11) ex_state = Aborted s' \<and>
         trace s' = [Rbt_i64_add 7, Oscap_free_items [11], Oscap_free_citem] \<and>
         SEXP_free 11 \<notin> set (trace s'))"
  by (simp add: worker_pair_def worker_insert_unfold probe_icache_item_setID_def next_local_id_def
      rbt_i64_add_def call_def ex_pair_def ex_sys_add_fails_def ex_sys_def ex_state_def NULL_def)

text \<open>
  Claim C7, amended. When the item's fingerprint is not in the index and the insertion
  of the new bucket fails, the worker has stamped the item, releases the array of the
  bucket and the bucket (not the item) and aborts the process: the entry's step and the
  handling of any list of entries that starts with it end in \<open>Aborted\<close>, the index,
  the items and the destinations being as the stamping left them.
\<close>

theorem index_failure_aborts:
  assumes "pair_cobj pair \<noteq> NULL"
    and "tree s (SEXP_ID_v sys (heap s (p_ptr (pair_p pair)))) = None"
    and "probe_icache_item_setID sys (p_ptr (pair_p pair)) s = Returned u s1"
    and "rbt_i64_add sys (SEXP_ID_v sys (heap s (p_ptr (pair_p pair)))) [p_ptr (pair_p pair)] s1 = (r, s2)"
    and "r \<noteq> 0"
  shows "worker_pairs sys (pair # pairs) s =
           Aborted (s2\<lparr>trace := trace s2 @ [Oscap_free_items [p_ptr (pair_p pair)], Oscap_free_citem]\<rparr>) \<and>
         worker_pair sys pair s =
           Aborted (s2\<lparr>trace := trace s2 @ [Oscap_free_items [p_ptr (pair_p pair)], Oscap_free_citem]\<rparr>) \<and>
         trace s2 = trace s1 @ [Rbt_i64_add (SEXP_ID_v sys (heap s (p_ptr (pair_p pair))))] \<and>
         tree s2 = tree s1 \<and> cobjs s2 = cobjs s1 \<and> heap s2 = heap s1"
  using assms
  by (auto simp: worker_pair_def worker_insert_unfold rbt_i64_add_def call_def Let_def split: if_splits)

theorem index_failure_aborts_witness:
  "worker_pairs ex_sys_add_fails [ex_pair 11, ex_pair 12] ex_state =
     Aborted (ex_state\<lparr>next_ID := 1,
        heap := ex_heap(11 := item_replace_id (ex_heap 11) (SEXP_string ''1000420'')),
        trace := [Rbt_i64_add 7, Oscap_free_items [11], Oscap_free_citem]\<rparr>)"
proof -
  have sid: "probe_icache_item_setID ex_sys_add_fails 11 ex_state =
      Returned () (ex_state\<lparr>next_ID := 1,
        heap := ex_heap(11 := item_replace_id (ex_heap 11) (SEXP_string ''1000420''))\<rparr>)"
    unfolding probe_icache_item_setID_def SEXP_string_newf_def format_stamp
    by (simp add: next_local_id_def ex_sys_add_fails_def ex_sys_def
        ex_state_def stamp_format_def decimal.simps digit_char_def numeral_3_eq_3)
  have add: "rbt_i64_add ex_sys_add_fails 7 [11] (ex_state\<lparr>next_ID := 1,
        heap := ex_heap(11 := item_replace_id (ex_heap 11) (SEXP_string ''1000420''))\<rparr>) =
      (12, ex_state\<lparr>next_ID := 1,
        heap := ex_heap(11 := item_replace_id (ex_heap 11) (SEXP_string ''1000420'')),
        trace := [Rbt_i64_add 7]\<rparr>)"
    by (simp add: rbt_i64_add_def call_def ex_sys_add_fails_def ex_sys_def ex_state_def)
  have id: "SEXP_ID_v ex_sys_add_fails (heap ex_state (p_ptr (pair_p (ex_pair 11)))) = 7"
    by (simp add: ex_sys_add_fails_def ex_sys_def)
  from index_failure_aborts [where sys = ex_sys_add_fails and pair = "ex_pair 11"
      and s = ex_state and pairs = "[ex_pair 12]" and r = 12, unfolded id, OF _ _ _ _ _]
    sid add
  show ?thesis
    by (simp add: ex_pair_def NULL_def ex_state_def)
qed

subsection \<open>The worker and the producers, interleaved\<close>

text \<open>
  Claim C9. The tags of the stored entries are not an invariant. In a cache of four
  slots, the worker has taken the Insert of item 13 from slot 1, found the item equal to
  the stored item 11 and released it. Before it executes line 191, producers submit
  three items and call \<^verbatim>\<open>probe_icache_nop\<close>, whose Barrier is stored in slot 1: the slot is
  free since the worker took its entry, and the count was 3 of 4. The worker then writes
  item 11 into the entry of slot 1, which now has no destination and an item: it is
  not well tagged, and line 216 appends item 11 to the destination \<^verbatim>\<open>NULL\<close>.
\<close>

theorem hit_write_mistags_barrier:
  "map_option (\<lambda>(w, s). (w, slot_read s 1, queue_cnt s, queue_max s))
     (process ex_sys 4 ex_state (ex_overtaken NULL)) =
     Some (W_hit 1 11, Some \<lparr>pair_cobj = NULL, pair_p = P_cond 9\<rparr>, 4, 4) \<and>
   map_option (\<lambda>(w, s). (w, slot_read s 1, queue_cnt s, queue_beg s, queue_end s))
     (process ex_sys 4 ex_state (ex_overtaken NULL @ [Worker_moves])) =
     Some (W_add 1, Some \<lparr>pair_cobj = NULL, pair_p = P_item 11\<rparr>, 4, 2, 2) \<and>
   \<not> pair_tagged \<lparr>pair_cobj = NULL, pair_p = P_item 11\<rparr> \<and>
   map_option (\<lambda>(w, s). (w, last (trace s)))
     (process ex_sys 4 ex_state (ex_overtaken NULL @ [Worker_moves, Worker_moves])) =
     Some (W_lock, Cobj_add_item NULL 11)"
  by code_simp

text \<open>
  Claim C1. A hit does not always reach the Insert it belongs to. The worker has taken
  the Insert of item 13 for the destination 2 from slot 1; item 13 has the fingerprint
  of the stored item 11 and is equal to it. The worker releases item 13; before it
  executes line 191, producers submit three items and then item 16 for the destination
  5, which is stored in slot 1. The worker writes item 11 into that entry and appends
  item 11 to the destination 5. The destination 2 has received nothing for item 13, and
  the Insert of item 16 is no longer in the queue: item 16 is neither appended nor
  released.
\<close>

theorem hit_lands_in_other_entry:
  "map_option (\<lambda>(w, s). (w, slot_read s 1, tree s 7,
        SEXP_ID_v ex_sys (heap s 13) = SEXP_ID_v ex_sys (heap s 11),
        SEXP_deepcmp ex_sys (heap s 13) (heap s 11), cobjs s 2, cobjs s 5))
     (process ex_sys 4 ex_state ex_taken) =
     Some (W_pair 1, Some \<lparr>pair_cobj = 2, pair_p = P_item 13\<rparr>, Some [11], True, True, [11], []) \<and>
   map_option (\<lambda>(w, s). (w, slot_read s 1, queue_cnt s, queue_max s, SEXP_free 13 \<in> set (trace s)))
     (process ex_sys 4 ex_state (ex_overtaken 5)) =
     Some (W_hit 1 11, Some \<lparr>pair_cobj = 5, pair_p = P_item 16\<rparr>, 4, 4, True) \<and>
   map_option (\<lambda>(w, s). (w, slot_read s 1, cobjs s 2, cobjs s 5, last (trace s),
        Some \<lparr>pair_cobj = 5, pair_p = P_item 16\<rparr> \<in> set (queue s), SEXP_free 16 \<in> set (trace s)))
     (process ex_sys 4 ex_state (ex_overtaken 5 @ [Worker_moves, Worker_moves])) =
     Some (W_lock, Some \<lparr>pair_cobj = 5, pair_p = P_item 11\<rparr>, [11], [11], Cobj_add_item 5 11,
           False, False)"
  by code_simp

subsection \<open>Deduplication\<close>

lemma bucket_scan_spec:
  "i \<le> length cached \<Longrightarrow>
     i \<le> bucket_scan sys s item cached i \<and> bucket_scan sys s item cached i \<le> length cached \<and>
     (\<forall>k. i \<le> k \<and> k < bucket_scan sys s item cached i \<longrightarrow>
          \<not> SEXP_deepcmp sys (heap s item) (heap s (cached ! k))) \<and>
     (bucket_scan sys s item cached i < length cached \<longrightarrow>
        SEXP_deepcmp sys (heap s item) (heap s (cached ! bucket_scan sys s item cached i)))"
proof (induction sys s item cached i rule: bucket_scan.induct)
  case (1 sys s item cached i)
  note eq = bucket_scan.simps [of sys s item cached i]
  show ?case
  proof (cases "i < length cached")
    case False
    then have "bucket_scan sys s item cached i = i" by (subst eq) simp
    with "1.prems" False show ?thesis by auto
  next
    case True
    show ?thesis
    proof (cases "SEXP_deepcmp sys (heap s item) (heap s (cached ! i))")
      case dc: True
      with True have "bucket_scan sys s item cached i = i" by (subst eq) simp
      with True dc show ?thesis by auto
    next
      case ndc: False
      with True "1.IH" have ih:
        "Suc i \<le> bucket_scan sys s item cached (Suc i) \<and>
         bucket_scan sys s item cached (Suc i) \<le> length cached \<and>
         (\<forall>k. Suc i \<le> k \<and> k < bucket_scan sys s item cached (Suc i) \<longrightarrow>
              \<not> SEXP_deepcmp sys (heap s item) (heap s (cached ! k))) \<and>
         (bucket_scan sys s item cached (Suc i) < length cached \<longrightarrow>
            SEXP_deepcmp sys (heap s item)
              (heap s (cached ! bucket_scan sys s item cached (Suc i))))"
        by simp
      have e: "bucket_scan sys s item cached i = bucket_scan sys s item cached (Suc i)"
        using True ndc by (subst eq) simp
      have "\<And>k. i \<le> k \<Longrightarrow> k = i \<or> Suc i \<le> k" by arith
      with ih ndc show ?thesis unfolding e by (auto dest: Suc_leD)
    qed
  qed
qed

lemma next_local_id_Returned:
  assumes "next_local_id sys s = Returned l s1"
  shows "l = next_ID s + (if have_atomic_functions sys then 0 else 1) \<and>
         (\<exists>es. (\<forall>x. SEXP_free x \<notin> set es) \<and>
               s1 = s\<lparr>next_ID := next_ID s + 1, trace := trace s @ es\<rparr>)"
proof (cases "have_atomic_functions sys")
  case True
  with assms have "l = next_ID s" "s1 = s\<lparr>next_ID := next_ID s + 1, trace := trace s @ []\<rparr>"
    by (auto simp: next_local_id_def)
  with True have "l = next_ID s + (if have_atomic_functions sys then 0 else 1)"
    "\<forall>x. SEXP_free x \<notin> set []" by simp_all
  with \<open>s1 = s\<lparr>next_ID := next_ID s + 1, trace := trace s @ []\<rparr>\<close> show ?thesis by blast
next
  case False
  with assms have "l = next_ID s + 1"
    "s1 = s\<lparr>next_ID := next_ID s + 1,
          trace := trace s @ [Mutex_lock Next_ID_mutex, Mutex_unlock Next_ID_mutex]\<rparr>"
    by (auto simp: next_local_id_def call_def Let_def split: if_splits)
  with False show ?thesis
    by (intro conjI exI [of _ "[Mutex_lock Next_ID_mutex, Mutex_unlock Next_ID_mutex]"]) simp_all
qed

lemma setID_Returned:
  assumes "probe_icache_item_setID sys x s = Returned u s1"
  shows "\<exists>es. (\<forall>y. SEXP_free y \<notin> set es) \<and>
           (s1 = s\<lparr>trace := trace s @ es\<rparr> \<and>
              debug_build sys \<and> (x = NULL \<or> \<not> SEXP_listp (heap s x)) \<or>
            s1 = s\<lparr>next_ID := next_ID s + 1, trace := trace s @ es,
                   heap := (heap s)(x := item_replace_id (heap s x)
                     (SEXP_string (stamp_format (getpid sys) (next_stamp sys s))))\<rparr> \<and>
              \<not> (debug_build sys \<and> (x = NULL \<or> \<not> SEXP_listp (heap s x))))"
proof (cases "debug_build sys \<and> (x = NULL \<or> \<not> SEXP_listp (heap s x))")
  case True
  with assms have "s1 = s\<lparr>trace := trace s @ []\<rparr>"
    by (simp add: probe_icache_item_setID_def)
  moreover have "\<forall>y. SEXP_free y \<notin> set []" by simp
  ultimately show ?thesis using True by blast
next
  case False
  with assms obtain l t where n: "next_local_id sys s = Returned l t"
    and s1: "s1 = t\<lparr>heap := (heap t)(x := item_replace_id (heap t x)
          (SEXP_string (stamp_format (getpid sys) (unat l))))\<rparr>"
    unfolding probe_icache_item_setID_def SEXP_string_newf_def format_stamp
    by (auto split: outcome.splits)
  from next_local_id_Returned [OF n] obtain es where
    l: "l = next_ID s + (if have_atomic_functions sys then 0 else 1)" and
    es: "\<forall>y. SEXP_free y \<notin> set es" and
    t: "t = s\<lparr>next_ID := next_ID s + 1, trace := trace s @ es\<rparr>"
    by blast
  from s1 t l have "s1 = s\<lparr>next_ID := next_ID s + 1, trace := trace s @ es,
                   heap := (heap s)(x := item_replace_id (heap s x)
                     (SEXP_string (stamp_format (getpid sys) (next_stamp sys s))))\<rparr>"
    by (simp add: next_stamp_def)
  with es False show ?thesis by blast
qed

lemma worker_collect_Returned:
  assumes "worker_collect sys e s = Returned (e', go) s1"
  shows "e' = e \<and>
         s1 = s\<lparr>trace := trace s @ [Cobj_add_item (pair_cobj e) (item_of e)],
                cobjs := (if go then (cobjs s)(pair_cobj e := cobjs s (pair_cobj e) @ [item_of e])
                          else cobjs s)\<rparr>"
  using assms
  by (auto simp: worker_collect_def probe_cobj_add_item_def call_def Let_def item_of_def
        split: if_splits)


lemma rbt_i64_add_Returned:
  assumes "rbt_i64_add sys k cached s = (r, s1)" and "tree s k = None"
  shows "s1 = s\<lparr>trace := trace s @ [Rbt_i64_add k],
                tree := (if r = 0 then (tree s)(k \<mapsto> cached) else tree s)\<rparr>"
  using assms by (auto simp: rbt_i64_add_def call_def Let_def split: if_splits)

text \<open>
  What a step of the worker on an Insert does, when the thread function goes on or
  returns: either the item matches no item stored under its fingerprint, it is added to
  that bucket and stamped (a miss), or the first stored item equal to it replaces it in
  the entry and it is released (a hit).
\<close>

lemma worker_insert_cases [consumes 1, case_names miss hit]:
  assumes ret: "worker_insert sys e s = Returned (e', go) s1"
  obtains
    (miss) es where
      "trace s1 = trace s @ es" "\<forall>x. SEXP_free x \<notin> set es" "queue s1 = queue s"
      "cobjs s1 = (if go then (cobjs s)(pair_cobj e := cobjs s (pair_cobj e) @ [item_of e])
                   else cobjs s)"
      "e' = e"
      "\<forall>q \<in> set (bucket_of s (SEXP_ID_v sys (heap s (item_of e)))).
          \<not> SEXP_deepcmp sys (heap s (item_of e)) (heap s q)"
      "tree s1 = (tree s)(SEXP_ID_v sys (heap s (item_of e)) \<mapsto>
                   bucket_of s (SEXP_ID_v sys (heap s (item_of e))) @ [item_of e])"
      "heap s1 = heap s \<and> next_ID s1 = next_ID s \<and>
         debug_build sys \<and> (item_of e = NULL \<or> \<not> SEXP_listp (heap s (item_of e))) \<or>
       heap s1 = (heap s)(item_of e := item_replace_id (heap s (item_of e))
                    (SEXP_string (stamp_format (getpid sys) (next_stamp sys s)))) \<and>
         next_ID s1 = next_ID s + 1 \<and>
         \<not> (debug_build sys \<and> (item_of e = NULL \<or> \<not> SEXP_listp (heap s (item_of e))))"
  | (hit) cached i where
      "tree s (SEXP_ID_v sys (heap s (item_of e))) = Some cached" "i < length cached"
      "SEXP_deepcmp sys (heap s (item_of e)) (heap s (cached ! i))"
      "\<forall>m < i. \<not> SEXP_deepcmp sys (heap s (item_of e)) (heap s (cached ! m))"
      "e' = e\<lparr>pair_p := P_item (cached ! i)\<rparr>"
      "trace s1 = trace s @ [SEXP_free (item_of e), Cobj_add_item (pair_cobj e) (cached ! i)]"
      "tree s1 = tree s" "heap s1 = heap s" "next_ID s1 = next_ID s" "queue s1 = queue s"
      "cobjs s1 = (if go then (cobjs s)(pair_cobj e := cobjs s (pair_cobj e) @ [cached ! i])
                   else cobjs s)"
proof -
  let ?p = "item_of e"
  let ?k = "SEXP_ID_v sys (heap s ?p)"
  have p: "p_ptr (pair_p e) = ?p" by (simp add: item_of_def)
  show thesis
  proof (cases "tree s ?k")
    case None
    with ret obtain t where sid: "probe_icache_item_setID sys ?p s = Returned () t"
      by (auto simp: worker_insert_unfold p Let_def split: outcome.splits)
    obtain r t2 where add: "rbt_i64_add sys ?k [?p] t = (r, t2)"
      by (cases "rbt_i64_add sys ?k [?p] t")
    with ret None sid have r: "r = 0" and col: "worker_collect sys e t2 = Returned (e', go) s1"
      by (auto simp: worker_insert_unfold p Let_def split: if_splits)
    from setID_Returned [OF sid] obtain es where
      es: "\<forall>y. SEXP_free y \<notin> set es" and
      t: "t = s\<lparr>trace := trace s @ es\<rparr> \<and>
              debug_build sys \<and> (?p = NULL \<or> \<not> SEXP_listp (heap s ?p)) \<or>
          t = s\<lparr>next_ID := next_ID s + 1, trace := trace s @ es,
                 heap := (heap s)(?p := item_replace_id (heap s ?p)
                   (SEXP_string (stamp_format (getpid sys) (next_stamp sys s))))\<rparr> \<and>
              \<not> (debug_build sys \<and> (?p = NULL \<or> \<not> SEXP_listp (heap s ?p)))"
      by blast
    from t None have tn: "tree t ?k = None" by auto
    from rbt_i64_add_Returned [OF add tn] r
    have t2: "t2 = t\<lparr>trace := trace t @ [Rbt_i64_add ?k], tree := (tree t)(?k \<mapsto> [?p])\<rparr>"
      by simp
    from worker_collect_Returned [OF col] have e': "e' = e" and
      s1: "s1 = t2\<lparr>trace := trace t2 @ [Cobj_add_item (pair_cobj e) ?p],
                cobjs := (if go then (cobjs t2)(pair_cobj e := cobjs t2 (pair_cobj e) @ [?p])
                          else cobjs t2)\<rparr>"
      by simp_all
    let ?es = "es @ [Rbt_i64_add ?k, Cobj_add_item (pair_cobj e) ?p]"
    show thesis
    proof (rule miss)
      show "trace s1 = trace s @ ?es" using s1 t2 t by auto
      show "\<forall>x. SEXP_free x \<notin> set ?es" using es by simp
      show "queue s1 = queue s" using s1 t2 t by auto
      show "cobjs s1 = (if go then (cobjs s)(pair_cobj e := cobjs s (pair_cobj e) @ [?p])
                 else cobjs s)" using s1 t2 t by auto
      show "e' = e" by (rule e')
      show "\<forall>q \<in> set (bucket_of s ?k). \<not> SEXP_deepcmp sys (heap s ?p) (heap s q)"
        using None by (simp add: bucket_of_def)
      show "tree s1 = (tree s)(?k \<mapsto> bucket_of s ?k @ [?p])"
        using s1 t2 t None by (auto simp: bucket_of_def)
      show "heap s1 = heap s \<and> next_ID s1 = next_ID s \<and>
           debug_build sys \<and> (?p = NULL \<or> \<not> SEXP_listp (heap s ?p)) \<or>
         heap s1 = (heap s)(?p := item_replace_id (heap s ?p)
                      (SEXP_string (stamp_format (getpid sys) (next_stamp sys s)))) \<and>
           next_ID s1 = next_ID s + 1 \<and>
           \<not> (debug_build sys \<and> (?p = NULL \<or> \<not> SEXP_listp (heap s ?p)))"
        using s1 t2 t by auto
    qed
  next
    case (Some cached)
    let ?i = "bucket_scan sys s ?p cached 0"
    from bucket_scan_spec [of 0 cached sys s ?p] have
      le: "?i \<le> length cached" and
      nm: "\<forall>m < ?i. \<not> SEXP_deepcmp sys (heap s ?p) (heap s (cached ! m))" and
      mt: "?i < length cached \<longrightarrow> SEXP_deepcmp sys (heap s ?p) (heap s (cached ! ?i))"
      by simp_all
    show thesis
    proof (cases "?i = length cached")
      case True
      let ?s' = "s\<lparr>tree := (tree s)(?k \<mapsto> cached @ [?p])\<rparr>"
      from ret Some True obtain t where sid: "probe_icache_item_setID sys ?p ?s' = Returned () t"
        and col: "worker_collect sys e t = Returned (e', go) s1"
        by (auto simp: worker_insert_unfold p Let_def split: outcome.splits if_splits)
      from setID_Returned [OF sid] obtain es where
        es: "\<forall>y. SEXP_free y \<notin> set es" and
        t: "t = ?s'\<lparr>trace := trace ?s' @ es\<rparr> \<and>
                debug_build sys \<and> (?p = NULL \<or> \<not> SEXP_listp (heap ?s' ?p)) \<or>
            t = ?s'\<lparr>next_ID := next_ID ?s' + 1, trace := trace ?s' @ es,
                   heap := (heap ?s')(?p := item_replace_id (heap ?s' ?p)
                     (SEXP_string (stamp_format (getpid sys) (next_stamp sys ?s'))))\<rparr> \<and>
                \<not> (debug_build sys \<and> (?p = NULL \<or> \<not> SEXP_listp (heap ?s' ?p)))"
        by blast
      have ns: "next_stamp sys ?s' = next_stamp sys s" by (simp add: next_stamp_def)
      from worker_collect_Returned [OF col] have e': "e' = e" and
        s1: "s1 = t\<lparr>trace := trace t @ [Cobj_add_item (pair_cobj e) ?p],
                  cobjs := (if go then (cobjs t)(pair_cobj e := cobjs t (pair_cobj e) @ [?p])
                            else cobjs t)\<rparr>"
        by simp_all
      let ?es = "es @ [Cobj_add_item (pair_cobj e) ?p]"
      show thesis
      proof (rule miss)
        show "trace s1 = trace s @ ?es" using s1 t by auto
        show "\<forall>x. SEXP_free x \<notin> set ?es" using es by simp
        show "queue s1 = queue s" using s1 t by auto
        show "cobjs s1 = (if go then (cobjs s)(pair_cobj e := cobjs s (pair_cobj e) @ [?p])
                   else cobjs s)" using s1 t by auto
        show "e' = e" by (rule e')
        show "\<forall>q \<in> set (bucket_of s ?k). \<not> SEXP_deepcmp sys (heap s ?p) (heap s q)"
          using Some nm True by (auto simp: bucket_of_def in_set_conv_nth)
        show "tree s1 = (tree s)(?k \<mapsto> bucket_of s ?k @ [?p])"
          using s1 t Some by (auto simp: bucket_of_def)
        show "heap s1 = heap s \<and> next_ID s1 = next_ID s \<and>
             debug_build sys \<and> (?p = NULL \<or> \<not> SEXP_listp (heap s ?p)) \<or>
           heap s1 = (heap s)(?p := item_replace_id (heap s ?p)
                        (SEXP_string (stamp_format (getpid sys) (next_stamp sys s)))) \<and>
             next_ID s1 = next_ID s + 1 \<and>
             \<not> (debug_build sys \<and> (?p = NULL \<or> \<not> SEXP_listp (heap s ?p)))"
          using s1 t ns by auto
      qed
    next
      case False
      with le have lt: "?i < length cached" by simp
      let ?e = "e\<lparr>pair_p := P_item (cached ! ?i)\<rparr>"
      from ret Some False have col: "worker_collect sys ?e (sexp_free ?p s) = Returned (e', go) s1"
        by (simp add: worker_insert_unfold p Let_def)
      have io: "item_of ?e = cached ! ?i" by (simp add: item_of_def)
      from worker_collect_Returned [OF col] have e': "e' = ?e" and
        s1: "s1 = (sexp_free ?p s)\<lparr>trace := trace (sexp_free ?p s) @
                     [Cobj_add_item (pair_cobj e) (cached ! ?i)],
                  cobjs := (if go then (cobjs (sexp_free ?p s))(pair_cobj e :=
                              cobjs (sexp_free ?p s) (pair_cobj e) @ [cached ! ?i])
                            else cobjs (sexp_free ?p s))\<rparr>"
        by (simp_all add: io)
      show thesis
      proof (rule hit)
        show "tree s ?k = Some cached" by (rule Some)
        show "?i < length cached" by (rule lt)
        show "SEXP_deepcmp sys (heap s ?p) (heap s (cached ! ?i))" using mt lt by simp
        show "\<forall>m < ?i. \<not> SEXP_deepcmp sys (heap s ?p) (heap s (cached ! m))" by (rule nm)
        show "e' = ?e" by (rule e')
        show "trace s1 = trace s @ [SEXP_free ?p, Cobj_add_item (pair_cobj e) (cached ! ?i)]"
          using s1 by (simp add: sexp_free_def)
        show "tree s1 = tree s" "heap s1 = heap s" "next_ID s1 = next_ID s" "queue s1 = queue s"
          using s1 by (simp_all add: sexp_free_def)
        show "cobjs s1 = (if go then (cobjs s)(pair_cobj e := cobjs s (pair_cobj e) @ [cached ! ?i])
                   else cobjs s)" using s1 by (simp add: sexp_free_def)
      qed
    qed
  qed
qed

lemma deepcmp_heap:
  assumes eqv: "deepcmp_equiv sys" and inv: "dedup_inv sys h0 s"
  shows "SEXP_deepcmp sys (heap s x) (heap s y) = SEXP_deepcmp sys (h0 x) (h0 y)"
proof -
  from eqv have sym: "\<And>a b. SEXP_deepcmp sys a b \<Longrightarrow> SEXP_deepcmp sys b a"
    and l: "\<And>a b v. SEXP_deepcmp sys (item_replace_id a v) b = SEXP_deepcmp sys a b"
    unfolding deepcmp_equiv_def by blast+
  have r: "\<And>a b v. SEXP_deepcmp sys a (item_replace_id b v) = SEXP_deepcmp sys a b"
    using sym l by blast
  from inv have hx: "heap s x = h0 x \<or> (\<exists>v. heap s x = item_replace_id (h0 x) v)"
    and hy: "heap s y = h0 y \<or> (\<exists>v. heap s y = item_replace_id (h0 y) v)"
    unfolding dedup_inv_def by blast+
  from hx hy show ?thesis by (auto simp: l r)
qed

lemma bucket_of_tree_upd:
  "tree s1 = (tree s)(k \<mapsto> b) \<Longrightarrow> bucket_of s1 k' = (if k' = k then b else bucket_of s k')"
  by (simp add: bucket_of_def)

lemma bucket_of_tree_eq: "tree s1 = tree s \<Longrightarrow> bucket_of s1 = bucket_of s"
  by (simp add: bucket_of_def fun_eq_iff)

lemma canonical_tree_eq: "tree s1 = tree s \<Longrightarrow> canonical s1 = canonical s"
  using bucket_of_tree_eq [of s1 s] by (simp add: canonical_def)

lemma canonical_tree_upd:
  "tree s1 = (tree s)(k \<mapsto> bucket_of s k @ [x]) \<Longrightarrow> canonical s1 = insert x (canonical s)"
  by (auto simp: canonical_def bucket_of_tree_upd split: if_splits)

lemma dedup_inv_eq:
  "dedup_inv sys h0 s \<Longrightarrow> tree s1 = tree s \<Longrightarrow> heap s1 = heap s \<Longrightarrow> dedup_inv sys h0 s1"
  using bucket_of_tree_eq [of s1 s] canonical_tree_eq [of s1 s] by (simp add: dedup_inv_def)

lemma dedup_inv_miss:
  assumes eqv: "deepcmp_equiv sys" and inv: "dedup_inv sys h0 s"
    and fresh: "x \<notin> canonical s"
    and k: "k = SEXP_ID_v sys (h0 x)"
    and nomatch: "\<forall>q \<in> set (bucket_of s k). \<not> SEXP_deepcmp sys (heap s x) (heap s q)"
    and tr: "tree s1 = (tree s)(k \<mapsto> bucket_of s k @ [x])"
    and hp: "heap s1 = heap s \<or> (\<exists>v. heap s1 = (heap s)(x := item_replace_id (heap s x) v))"
  shows "dedup_inv sys h0 s1"
proof -
  let ?b = "bucket_of s k"
  from inv have d: "\<And>k. distinct (bucket_of s k)"
    and f: "\<And>k q. q \<in> set (bucket_of s k) \<Longrightarrow> SEXP_ID_v sys (h0 q) = k"
    and pw: "\<And>k m n. m < n \<Longrightarrow> n < length (bucket_of s k) \<Longrightarrow>
               \<not> SEXP_deepcmp sys (h0 (bucket_of s k ! n)) (h0 (bucket_of s k ! m))"
    and un: "\<And>y. y \<notin> canonical s \<Longrightarrow> heap s y = h0 y"
    and st: "\<And>y. heap s y = h0 y \<or> (\<exists>v. heap s y = item_replace_id (h0 y) v)"
    unfolding dedup_inv_def by blast+
  from fresh have xb: "\<And>k. x \<notin> set (bucket_of s k)" by (auto simp: canonical_def)
  from fresh un have hx: "heap s x = h0 x" by simp
  have nm: "\<And>q. q \<in> set ?b \<Longrightarrow> \<not> SEXP_deepcmp sys (h0 x) (h0 q)"
    using nomatch deepcmp_heap [OF eqv inv] by simp
  have b1: "\<And>k'. bucket_of s1 k' = (if k' = k then ?b @ [x] else bucket_of s k')"
    using tr by (rule bucket_of_tree_upd)
  have c1: "canonical s1 = insert x (canonical s)" using tr by (rule canonical_tree_upd)
  have A: "distinct (bucket_of s1 k')" for k'
    using d xb by (simp add: b1)
  have B: "\<forall>q \<in> set (bucket_of s1 k'). SEXP_ID_v sys (h0 q) = k'" for k'
    using f k by (auto simp: b1)
  have C: "\<not> SEXP_deepcmp sys (h0 (bucket_of s1 k' ! n)) (h0 (bucket_of s1 k' ! m))"
    if "m < n" "n < length (bucket_of s1 k')" for k' m n
  proof (cases "k' = k")
    case False
    with that pw show ?thesis by (simp add: b1)
  next
    case True
    show ?thesis
    proof (cases "n < length ?b")
      case True
      with that pw [of m n k] \<open>k' = k\<close> show ?thesis by (simp add: b1 nth_append)
    next
      case False
      with that \<open>k' = k\<close> have n: "n = length ?b" by (simp add: b1)
      with that have "m < length ?b" by simp
      then have "?b ! m \<in> set ?b" by simp
      from nm [OF this] n \<open>m < length ?b\<close> \<open>k' = k\<close> show ?thesis
        by (simp add: b1 nth_append)
    qed
  qed
  have D: "heap s1 y = h0 y" if "y \<notin> canonical s1" for y
    using that hp un c1 by auto
  have E: "heap s1 y = h0 y \<or> (\<exists>v. heap s1 y = item_replace_id (h0 y) v)" for y
    using hp st [of y] hx by (cases "y = x") auto
  show ?thesis unfolding dedup_inv_def using A B C D E by blast
qed


lemma worker_nop_Returned:
  assumes "worker_nop sys e s = Returned (e', go) s1"
  shows "e' = e \<and> (\<exists>es. s1 = s\<lparr>trace := trace s @ es\<rparr>)"
proof (cases "debug_build sys \<and> p_ptr (pair_p e) = NULL")
  case True
  with assms have "e' = e" "s1 = s\<lparr>trace := trace s @ []\<rparr>" by (auto simp: worker_nop_def)
  then show ?thesis by blast
next
  case False
  with assms have "e' = e"
    "s1 = s\<lparr>trace := trace s @ [Cond_signal (Cond_at (p_ptr (pair_p e)))]\<rparr>"
    by (auto simp: worker_nop_def call_def Let_def split: if_splits)
  then show ?thesis by blast
qed

text \<open>
  One step of the worker on an entry, under the invariant: the invariant holds
  afterwards; buckets only grow, by the entry's own item at most; only the entry's item
  may change; the entry ends with an item of its fingerprint's bucket, which is its own
  item or an equal one stored before (and then its own item has been released), and
  which is the stored item it is equal to when there is one.
\<close>

lemma worker_pair_step:
  assumes eqv: "deepcmp_equiv sys" and inv: "dedup_inv sys h0 s"
    and fr: "is_insert e \<longrightarrow> item_of e \<notin> canonical s"
    and ret: "worker_pair sys e s = Returned (e', go) s1"
  shows "dedup_inv sys h0 s1 \<and>
         (\<forall>k. \<exists>more. bucket_of s1 k = bucket_of s k @ more) \<and>
         canonical s1 \<subseteq> (if is_insert e then insert (item_of e) (canonical s) else canonical s) \<and>
         (\<forall>x. x \<noteq> item_of e \<or> \<not> is_insert e \<longrightarrow> heap s1 x = heap s x) \<and>
         (\<exists>es. trace s1 = trace s @ es) \<and>
         pair_cobj e' = pair_cobj e \<and>
         (\<forall>d. cobjs s1 d = cobjs s d @
                (if go \<and> pair_cobj e = d \<and> is_insert e then [item_of e'] else [])) \<and>
         (is_insert e \<longrightarrow>
            item_of e' \<in> set (bucket_of s1 (SEXP_ID_v sys (h0 (item_of e)))) \<and>
            (item_of e' = item_of e \<or>
             SEXP_deepcmp sys (h0 (item_of e)) (h0 (item_of e')) \<and>
             SEXP_free (item_of e) \<in> set (trace s1)) \<and>
            (\<forall>q \<in> set (bucket_of s (SEXP_ID_v sys (h0 (item_of e)))).
               SEXP_deepcmp sys (h0 (item_of e)) (h0 q) \<longrightarrow> item_of e' = q))"
  (is "?G1 \<and> ?G2 \<and> ?G3 \<and> ?G4 \<and> ?G5 \<and> ?G6 \<and> ?G7 \<and> ?G8")
proof (cases "is_insert e")
  case False
  with ret have "worker_nop sys e s = Returned (e', go) s1"
    by (simp add: worker_pair_def is_insert_def)
  from worker_nop_Returned [OF this] obtain es where e': "e' = e"
    and s1: "s1 = s\<lparr>trace := trace s @ es\<rparr>" by blast
  from s1 have t: "tree s1 = tree s" and h: "heap s1 = heap s" and c: "cobjs s1 = cobjs s"
    and tr: "trace s1 = trace s @ es" by simp_all
  from inv t h have ?G1 by (rule dedup_inv_eq)
  moreover from t have "bucket_of s1 = bucket_of s" by (rule bucket_of_tree_eq)
  then have ?G2 by simp
  moreover from t have "canonical s1 = canonical s" by (rule canonical_tree_eq)
  with False have ?G3 by simp
  moreover from h have ?G4 by simp
  moreover from tr have ?G5 by blast
  moreover from e' have ?G6 by simp
  moreover from c False have ?G7 by simp
  moreover from False have ?G8 by simp
  ultimately show ?thesis by (intro conjI)
next
  case True
  let ?p = "item_of e"
  let ?k = "SEXP_ID_v sys (h0 ?p)"
  from True fr have fresh: "?p \<notin> canonical s" by simp
  with inv have hp: "heap s ?p = h0 ?p" unfolding dedup_inv_def by blast
  from True ret have ins: "worker_insert sys e s = Returned (e', go) s1"
    by (simp add: worker_pair_def is_insert_def)
  have dch: "\<And>q. SEXP_deepcmp sys (h0 ?p) (heap s q) = SEXP_deepcmp sys (h0 ?p) (h0 q)"
    using deepcmp_heap [OF eqv inv, of ?p] hp by simp
  from ins show ?thesis
  proof (cases rule: worker_insert_cases)
    case (miss es)
    note e' = \<open>e' = e\<close>
    from miss(6) hp have nm: "\<forall>q \<in> set (bucket_of s ?k). \<not> SEXP_deepcmp sys (heap s ?p) (heap s q)"
      by simp
    from miss(7) hp have t: "tree s1 = (tree s)(?k \<mapsto> bucket_of s ?k @ [?p])" by simp
    from miss(8) have h': "heap s1 = heap s \<or> (\<exists>v. heap s1 = (heap s)(?p := item_replace_id (heap s ?p) v))"
      by blast
    have ?G1 using eqv inv fresh refl nm t h' by (rule dedup_inv_miss)
    moreover
    have b1: "\<And>k'. bucket_of s1 k' = (if k' = ?k then bucket_of s ?k @ [?p] else bucket_of s k')"
      using t by (rule bucket_of_tree_upd)
    then have ?G2 by simp
    moreover
    have "canonical s1 = insert ?p (canonical s)" using t by (rule canonical_tree_upd)
    with True have ?G3 by simp
    moreover from h' True have ?G4 by auto
    moreover from miss(1) have ?G5 by blast
    moreover from e' have ?G6 by simp
    moreover from miss(4) True e' have ?G7 by simp
    moreover
    have m1: "item_of e' \<in> set (bucket_of s1 ?k)" using b1 e' by simp
    have m2: "\<forall>q \<in> set (bucket_of s ?k). SEXP_deepcmp sys (h0 ?p) (h0 q) \<longrightarrow> item_of e' = q"
      using nm hp dch by simp
    from m1 m2 e' have ?G8 by simp
    ultimately show ?thesis by (intro conjI)
  next
    case (hit cached i)
    note ts = hit(1) [unfolded hp] and i = hit(2) and m = hit(3) [unfolded hp]
      and first = hit(4) [unfolded hp] and e' = hit(5) and tr = hit(6)
      and t = hit(7) and h = hit(8) and co = hit(11)
    from ts have b: "bucket_of s ?k = cached" by (simp add: bucket_of_def)
    from e' have io: "item_of e' = cached ! i" and pc: "pair_cobj e' = pair_cobj e"
      by (simp_all add: item_of_def)
    from inv t h have ?G1 by (rule dedup_inv_eq)
    moreover from t have b1: "bucket_of s1 = bucket_of s" by (rule bucket_of_tree_eq)
    then have ?G2 by simp
    moreover from t have "canonical s1 = canonical s" by (rule canonical_tree_eq)
    then have ?G3 by auto
    moreover from h have ?G4 by simp
    moreover from tr have ?G5 by blast
    moreover note pc
    moreover from co True io have ?G7 by simp
    moreover
    from i b have mem: "item_of e' \<in> set (bucket_of s1 ?k)" by (simp add: io b1)
    from m dch have eq: "SEXP_deepcmp sys (h0 ?p) (h0 (item_of e'))" by (simp add: io)
    from tr have fr': "SEXP_free ?p \<in> set (trace s1)" by simp
    have uniq: "item_of e' = q"
      if q: "q \<in> set (bucket_of s ?k)" and dq: "SEXP_deepcmp sys (h0 ?p) (h0 q)" for q
    proof -
      from q b obtain n where n: "n < length cached" and qn: "q = cached ! n"
        by (auto simp: in_set_conv_nth)
      from eqv have sym: "\<And>a b. SEXP_deepcmp sys a b \<Longrightarrow> SEXP_deepcmp sys b a"
        and trans: "\<And>a b c. SEXP_deepcmp sys a b \<Longrightarrow> SEXP_deepcmp sys b c \<Longrightarrow> SEXP_deepcmp sys a c"
        unfolding deepcmp_equiv_def by blast+
      from inv have pw: "\<And>m n. m < n \<Longrightarrow> n < length (bucket_of s ?k) \<Longrightarrow>
               \<not> SEXP_deepcmp sys (h0 (bucket_of s ?k ! n)) (h0 (bucket_of s ?k ! m))"
        unfolding dedup_inv_def by blast
      have "\<not> n < i" using first dq dch qn by auto
      moreover have "\<not> i < n"
      proof
        assume "i < n"
        from pw [OF this] n b have "\<not> SEXP_deepcmp sys (h0 (cached ! n)) (h0 (cached ! i))" by simp
        moreover from dq qn have "SEXP_deepcmp sys (h0 (cached ! n)) (h0 ?p)" by (auto intro: sym)
        moreover from m dch have "SEXP_deepcmp sys (h0 ?p) (h0 (cached ! i))" by simp
        ultimately show False by (blast intro: trans)
      qed
      ultimately have "n = i" by simp
      with qn io show ?thesis by simp
    qed
    from mem eq fr' uniq have ?G8 by blast
    ultimately show ?thesis by (intro conjI)
  qed
qed

lemma worker_pairs_Cons:
  assumes "worker_pairs sys (e # rest) s = Returned pairs' s'"
  obtains e' s1 rest' where "worker_pair sys e s = Returned (e', True) s1"
    "worker_pairs sys rest s1 = Returned rest' s'" "pairs' = e' # rest'"
  using assms by (auto split: outcome.splits if_splits)

lemma fresh_items_tail:
  assumes "fresh_items (e # rest) s"
    and "canonical s1 \<subseteq> (if is_insert e then insert (item_of e) (canonical s) else canonical s)"
  shows "fresh_items rest s1"
proof -
  from assms(1) have d: "distinct (map item_of (filter is_insert rest))"
    and nr: "is_insert e \<Longrightarrow> item_of e \<notin> item_of ` {x \<in> set rest. is_insert x}"
    and nc: "\<And>x. x \<in> set rest \<Longrightarrow> is_insert x \<Longrightarrow> item_of x \<notin> canonical s"
    by (auto simp: fresh_items_def split: if_splits)
  have "item_of x \<notin> canonical s1" if x: "x \<in> set rest" "is_insert x" for x
  proof
    assume "item_of x \<in> canonical s1"
    with assms(2) nc [OF x] have "is_insert e" "item_of x = item_of e"
      by (auto split: if_splits)
    moreover from x have "item_of x \<in> item_of ` {x \<in> set rest. is_insert x}" by blast
    ultimately show False using nr by simp
  qed
  with d show ?thesis by (simp add: fresh_items_def)
qed

lemma fresh_items_head: "fresh_items (e # rest) s \<Longrightarrow> is_insert e \<longrightarrow> item_of e \<notin> canonical s"
  by (simp add: fresh_items_def)

text \<open>
  The worker handling a list of entries, under the invariant: the invariant holds at the
  end; the buckets have only grown, by items of the entries; only items of the entries
  have changed; the destinations have received, in order, the items the entries end
  with.
\<close>

lemma worker_pairs_frame:
  assumes eqv: "deepcmp_equiv sys"
  shows "dedup_inv sys h0 s \<Longrightarrow> fresh_items pairs s \<Longrightarrow>
     worker_pairs sys pairs s = Returned pairs' s' \<Longrightarrow>
     dedup_inv sys h0 s' \<and>
     length pairs' = length pairs \<and>
     (\<forall>k. \<exists>more. bucket_of s' k = bucket_of s k @ more) \<and>
     canonical s' \<subseteq> canonical s \<union> item_of ` {e \<in> set pairs. is_insert e} \<and>
     (\<forall>x. x \<notin> item_of ` {e \<in> set pairs. is_insert e} \<longrightarrow> heap s' x = heap s x) \<and>
     (\<exists>es. trace s' = trace s @ es) \<and>
     (\<forall>d. cobjs s' d = cobjs s d @ map item_of (filter (\<lambda>e. pair_cobj e = d \<and> is_insert e) pairs'))"
proof (induction pairs arbitrary: s pairs' s')
  case Nil
  then show ?case by simp
next
  case (Cons e rest)
  from Cons.prems(3) obtain e' s1 rest' where
    st: "worker_pair sys e s = Returned (e', True) s1" and
    run: "worker_pairs sys rest s1 = Returned rest' s'" and
    p': "pairs' = e' # rest'"
    by (rule worker_pairs_Cons)
  note step = worker_pair_step [OF eqv Cons.prems(1) fresh_items_head [OF Cons.prems(2)] st]
  from step have i1: "dedup_inv sys h0 s1"
    and b1: "\<forall>k. \<exists>more. bucket_of s1 k = bucket_of s k @ more"
    and c1: "canonical s1 \<subseteq> (if is_insert e then insert (item_of e) (canonical s) else canonical s)"
    and h1: "\<forall>x. x \<noteq> item_of e \<or> \<not> is_insert e \<longrightarrow> heap s1 x = heap s x"
    and t1: "\<exists>es. trace s1 = trace s @ es"
    and pc: "pair_cobj e' = pair_cobj e"
    and co1: "\<forall>d. cobjs s1 d = cobjs s d @
                (if True \<and> pair_cobj e = d \<and> is_insert e then [item_of e'] else [])"
    by blast+
  from Cons.prems(2) c1 have f1: "fresh_items rest s1" by (rule fresh_items_tail)
  note ih = Cons.IH [OF i1 f1 run]
  from ih have i2: "dedup_inv sys h0 s'"
    and l2: "length rest' = length rest"
    and b2: "\<forall>k. \<exists>more. bucket_of s' k = bucket_of s1 k @ more"
    and c2: "canonical s' \<subseteq> canonical s1 \<union> item_of ` {e \<in> set rest. is_insert e}"
    and h2: "\<forall>x. x \<notin> item_of ` {e \<in> set rest. is_insert e} \<longrightarrow> heap s' x = heap s1 x"
    and t2: "\<exists>es. trace s' = trace s1 @ es"
    and co2: "\<forall>d. cobjs s' d = cobjs s1 d @
                map item_of (filter (\<lambda>e. pair_cobj e = d \<and> is_insert e) rest')"
    by blast+
  have G2: "length pairs' = length (e # rest)" using p' l2 by simp
  have G3: "\<forall>k. \<exists>more. bucket_of s' k = bucket_of s k @ more"
  proof
    fix k
    from b1 obtain m1 where "bucket_of s1 k = bucket_of s k @ m1" by blast
    moreover from b2 obtain m2 where "bucket_of s' k = bucket_of s1 k @ m2" by blast
    ultimately have "bucket_of s' k = bucket_of s k @ (m1 @ m2)" by simp
    then show "\<exists>more. bucket_of s' k = bucket_of s k @ more" ..
  qed
  have G4: "canonical s' \<subseteq> canonical s \<union> item_of ` {x \<in> set (e # rest). is_insert x}"
    using c1 c2 by (auto split: if_splits)
  have G5: "\<forall>x. x \<notin> item_of ` {x \<in> set (e # rest). is_insert x} \<longrightarrow> heap s' x = heap s x"
  proof (intro allI impI)
    fix x assume x: "x \<notin> item_of ` {x \<in> set (e # rest). is_insert x}"
    then have "x \<notin> item_of ` {e \<in> set rest. is_insert e}" by auto
    with h2 have "heap s' x = heap s1 x" by simp
    moreover from x have "x \<noteq> item_of e \<or> \<not> is_insert e" by auto
    with h1 have "heap s1 x = heap s x" by simp
    ultimately show "heap s' x = heap s x" by simp
  qed
  have G6: "\<exists>es. trace s' = trace s @ es"
  proof -
    from t1 obtain e1 where "trace s1 = trace s @ e1" by blast
    moreover from t2 obtain e2 where "trace s' = trace s1 @ e2" by blast
    ultimately have "trace s' = trace s @ (e1 @ e2)" by simp
    then show ?thesis ..
  qed
  have ie: "is_insert e' = is_insert e" using pc by (simp add: is_insert_def)
  have G7: "\<forall>d. cobjs s' d = cobjs s d @
              map item_of (filter (\<lambda>e. pair_cobj e = d \<and> is_insert e) pairs')"
    using co1 co2 p' pc ie by simp
  from i2 G2 G3 G4 G5 G6 G7 show ?case by (intro conjI)
qed

lemma bucket_append_mono:
  "\<forall>k. \<exists>more. bucket_of s1 k = bucket_of s k @ more \<Longrightarrow> q \<in> set (bucket_of s k)
   \<Longrightarrow> q \<in> set (bucket_of s1 k)"
  by (metis Un_iff set_append)

lemma trace_append_mono:
  "\<exists>es. trace s1 = trace s @ es \<Longrightarrow> x \<in> set (trace s) \<Longrightarrow> x \<in> set (trace s1)"
  by auto

text \<open>
  The item each Insert ends with: an item of its fingerprint's bucket, its own or an
  equal one (its own being released then), and the stored item it was equal to when the
  index already held one.
\<close>

lemma worker_pairs_reps:
  assumes eqv: "deepcmp_equiv sys"
  shows "dedup_inv sys h0 s \<Longrightarrow> fresh_items pairs s \<Longrightarrow>
     worker_pairs sys pairs s = Returned pairs' s' \<Longrightarrow> j < length pairs \<Longrightarrow>
     is_insert (pairs ! j) \<Longrightarrow>
       item_of (pairs' ! j) \<in> set (bucket_of s' (SEXP_ID_v sys (h0 (item_of (pairs ! j))))) \<and>
       (item_of (pairs' ! j) = item_of (pairs ! j) \<or>
        SEXP_deepcmp sys (h0 (item_of (pairs ! j))) (h0 (item_of (pairs' ! j))) \<and>
        SEXP_free (item_of (pairs ! j)) \<in> set (trace s')) \<and>
       (\<forall>q \<in> set (bucket_of s (SEXP_ID_v sys (h0 (item_of (pairs ! j))))).
          SEXP_deepcmp sys (h0 (item_of (pairs ! j))) (h0 q) \<longrightarrow> item_of (pairs' ! j) = q)"
proof (induction pairs arbitrary: s pairs' s' j)
  case Nil
  then show ?case by simp
next
  case (Cons e rest)
  from Cons.prems(3) obtain e' s1 rest' where
    st: "worker_pair sys e s = Returned (e', True) s1" and
    run: "worker_pairs sys rest s1 = Returned rest' s'" and
    p': "pairs' = e' # rest'"
    by (rule worker_pairs_Cons)
  note step = worker_pair_step [OF eqv Cons.prems(1) fresh_items_head [OF Cons.prems(2)] st]
  from step have i1: "dedup_inv sys h0 s1"
    and b1: "\<forall>k. \<exists>more. bucket_of s1 k = bucket_of s k @ more"
    and c1: "canonical s1 \<subseteq> (if is_insert e then insert (item_of e) (canonical s) else canonical s)"
    by blast+
  from Cons.prems(2) c1 have f1: "fresh_items rest s1" by (rule fresh_items_tail)
  from worker_pairs_frame [OF eqv i1 f1 run] have
    b2: "\<forall>k. \<exists>more. bucket_of s' k = bucket_of s1 k @ more" and
    t2: "\<exists>es. trace s' = trace s1 @ es"
    by blast+
  show ?case
  proof (cases j)
    case 0
    with Cons.prems(5) have ie: "is_insert e" by simp
    let ?k = "SEXP_ID_v sys (h0 (item_of e))"
    from step ie have m: "item_of e' \<in> set (bucket_of s1 ?k)"
      and d: "item_of e' = item_of e \<or>
             SEXP_deepcmp sys (h0 (item_of e)) (h0 (item_of e')) \<and>
             SEXP_free (item_of e) \<in> set (trace s1)"
      and u: "\<forall>q \<in> set (bucket_of s ?k).
               SEXP_deepcmp sys (h0 (item_of e)) (h0 q) \<longrightarrow> item_of e' = q"
      by blast+
    from b2 m have "item_of e' \<in> set (bucket_of s' ?k)" by (rule bucket_append_mono)
    moreover from d t2 have "item_of e' = item_of e \<or>
             SEXP_deepcmp sys (h0 (item_of e)) (h0 (item_of e')) \<and>
             SEXP_free (item_of e) \<in> set (trace s')"
      by (auto dest: trace_append_mono)
    ultimately show ?thesis using u 0 p' by simp
  next
    case (Suc j')
    with Cons.prems(4,5) have j': "j' < length rest" and ij: "is_insert (rest ! j')" by simp_all
    let ?k = "SEXP_ID_v sys (h0 (item_of (rest ! j')))"
    from Cons.IH [OF i1 f1 run j' ij] have
      m: "item_of (rest' ! j') \<in> set (bucket_of s' ?k)" and
      d: "item_of (rest' ! j') = item_of (rest ! j') \<or>
        SEXP_deepcmp sys (h0 (item_of (rest ! j'))) (h0 (item_of (rest' ! j'))) \<and>
        SEXP_free (item_of (rest ! j')) \<in> set (trace s')" and
      u: "\<forall>q \<in> set (bucket_of s1 ?k).
          SEXP_deepcmp sys (h0 (item_of (rest ! j'))) (h0 q) \<longrightarrow> item_of (rest' ! j') = q"
      by blast+
    have "\<forall>q \<in> set (bucket_of s ?k).
          SEXP_deepcmp sys (h0 (item_of (rest ! j'))) (h0 q) \<longrightarrow> item_of (rest' ! j') = q"
      using u b1 by (blast dest: bucket_append_mono)
    with m d Suc p' show ?thesis by simp
  qed
qed

text \<open>Two Inserts with the same fingerprint and equal contents end with the same item.\<close>

lemma worker_pairs_equal:
  assumes eqv: "deepcmp_equiv sys"
  shows "dedup_inv sys h0 s \<Longrightarrow> fresh_items pairs s \<Longrightarrow>
     worker_pairs sys pairs s = Returned pairs' s' \<Longrightarrow> i < j \<Longrightarrow> j < length pairs \<Longrightarrow>
     is_insert (pairs ! i) \<Longrightarrow> is_insert (pairs ! j) \<Longrightarrow>
     SEXP_ID_v sys (h0 (item_of (pairs ! j))) = SEXP_ID_v sys (h0 (item_of (pairs ! i))) \<Longrightarrow>
     SEXP_deepcmp sys (h0 (item_of (pairs ! j))) (h0 (item_of (pairs ! i))) \<Longrightarrow>
       item_of (pairs' ! j) = item_of (pairs' ! i) \<and>
       SEXP_free (item_of (pairs ! j)) \<in> set (trace s')"
proof (induction pairs arbitrary: s pairs' s' i j)
  case Nil
  then show ?case by simp
next
  case (Cons e rest)
  from Cons.prems(3) obtain e' s1 rest' where
    st: "worker_pair sys e s = Returned (e', True) s1" and
    run: "worker_pairs sys rest s1 = Returned rest' s'" and
    p': "pairs' = e' # rest'"
    by (rule worker_pairs_Cons)
  note step = worker_pair_step [OF eqv Cons.prems(1) fresh_items_head [OF Cons.prems(2)] st]
  from step have i1: "dedup_inv sys h0 s1"
    and c1: "canonical s1 \<subseteq> (if is_insert e then insert (item_of e) (canonical s) else canonical s)"
    by blast+
  from Cons.prems(2) c1 have f1: "fresh_items rest s1" by (rule fresh_items_tail)
  from Cons.prems(4) obtain j' where j: "j = Suc j'" by (cases j) simp_all
  with Cons.prems(5,7) have j': "j' < length rest" and ij: "is_insert (rest ! j')" by simp_all
  let ?pj = "item_of (rest ! j')"
  note reps = worker_pairs_reps [OF eqv i1 f1 run j' ij]
  show ?case
  proof (cases i)
    case 0
    with Cons.prems(6) have ie: "is_insert e" by simp
    let ?k = "SEXP_ID_v sys (h0 (item_of e))"
    from Cons.prems(8,9) 0 j have k: "SEXP_ID_v sys (h0 ?pj) = ?k"
      and dc: "SEXP_deepcmp sys (h0 ?pj) (h0 (item_of e))" by simp_all
    from step ie have m: "item_of e' \<in> set (bucket_of s1 ?k)"
      and d: "item_of e' = item_of e \<or>
             SEXP_deepcmp sys (h0 (item_of e)) (h0 (item_of e')) \<and>
             SEXP_free (item_of e) \<in> set (trace s1)"
      by blast+
    from eqv have trans: "\<And>a b c. SEXP_deepcmp sys a b \<Longrightarrow> SEXP_deepcmp sys b c \<Longrightarrow> SEXP_deepcmp sys a c"
      unfolding deepcmp_equiv_def by blast
    from d dc have dc': "SEXP_deepcmp sys (h0 ?pj) (h0 (item_of e'))" by (auto intro: trans)
    from reps k m dc' have eq: "item_of (rest' ! j') = item_of e'" by simp
    from m have "item_of e' \<in> canonical s1" by (auto simp: canonical_def)
    moreover from f1 j' ij have "?pj \<notin> canonical s1" by (auto simp: fresh_items_def)
    ultimately have "item_of (rest' ! j') \<noteq> ?pj" using eq by auto
    with reps have "SEXP_free ?pj \<in> set (trace s')" by blast
    with eq 0 j p' show ?thesis by simp
  next
    case (Suc i')
    with Cons.prems j have "i' < j'" "is_insert (rest ! i')"
      "SEXP_ID_v sys (h0 ?pj) = SEXP_ID_v sys (h0 (item_of (rest ! i')))"
      "SEXP_deepcmp sys (h0 ?pj) (h0 (item_of (rest ! i')))"
      by simp_all
    from Cons.IH [OF i1 f1 run this(1) j' this(2) ij this(3,4)] Suc j p'
    show ?thesis by simp
  qed
qed

lemma digit_char_inj: "a < 10 \<Longrightarrow> b < 10 \<Longrightarrow> digit_char a = digit_char b \<Longrightarrow> a = b"
proof -
  have d: "distinct ''0123456789''" by simp
  assume "a < 10" "b < 10" "digit_char a = digit_char b"
  with d show ?thesis by (simp add: digit_char_def nth_eq_iff_index_eq)
qed

lemma decimal_length: "length (decimal n) = 1 \<longleftrightarrow> n < 10"
proof (cases "n < 10")
  case True
  then show ?thesis by (simp add: decimal.simps [of n])
next
  case False
  have "decimal (n div 10) \<noteq> []" by (subst decimal.simps) simp
  then have "length (decimal (n div 10)) \<noteq> 0" by simp
  with False show ?thesis by (simp add: decimal.simps [of n])
qed

lemma decimal_inj: "decimal m = decimal n \<Longrightarrow> m = n"
proof (induction m arbitrary: n rule: decimal.induct)
  case (1 m)
  from "1.prems" have len: "length (decimal m) = length (decimal n)" by simp
  show ?case
  proof (cases "m < 10")
    case True
    with len decimal_length [of m] decimal_length [of n] have n: "n < 10" by simp
    with True "1.prems" show ?thesis
      by (simp add: decimal.simps [of m] decimal.simps [of n] digit_char_inj)
  next
    case False
    with len decimal_length [of m] decimal_length [of n] have n: "\<not> n < 10" by simp
    with False "1.prems" have a: "decimal (m div 10) = decimal (n div 10)"
      and b: "digit_char (m mod 10) = digit_char (n mod 10)"
      by (simp_all add: decimal.simps [of m] decimal.simps [of n])
    from "1.IH" [OF False a] have "m div 10 = n div 10" .
    moreover from b have "m mod 10 = n mod 10" by (auto intro: digit_char_inj)
    ultimately show ?thesis by (metis div_mult_mod_eq)
  qed
qed

lemma stamp_format_inj: "stamp_format pid c = stamp_format pid c' \<Longrightarrow> c = c'"
  by (simp add: stamp_format_def decimal_inj)

lemma stamp_inv_eq:
  "stamp_inv sys s \<Longrightarrow> tree s1 = tree s \<Longrightarrow> heap s1 = heap s \<Longrightarrow> next_ID s1 = next_ID s
   \<Longrightarrow> stamp_inv sys s1"
  using canonical_tree_eq [of s1 s] by (simp add: stamp_inv_def next_stamp_def)

lemma next_stamp_Suc:
  assumes "unat (next_ID s) + 2 < 2 ^ 32" and "next_ID s1 = next_ID s + 1"
  shows "next_stamp sys s1 = next_stamp sys s + 1"
proof -
  have a: "unat (next_ID s + 1) = unat (next_ID s) + 1"
    using assms(1) by (simp add: unat_word_ariths)
  have b: "unat (next_ID s + 1 + 1) = unat (next_ID s) + 2"
    using assms(1) a by (simp add: unat_word_ariths)
  show ?thesis using a b assms(2) by (simp add: next_stamp_def)
qed

lemma item_id_listp: "item_id x \<noteq> None \<Longrightarrow> SEXP_listp x"
  by (auto simp: item_id_def SEXP_listp_def split: sexp.splits)

text \<open>One step of the worker keeps the invariant of the stamps; a miss writes the next stamp.\<close>

lemma worker_pair_stamp:
  assumes inv: "dedup_inv sys h0 s"
    and fr: "is_insert e \<longrightarrow> item_of e \<notin> canonical s"
    and wf: "is_insert e \<longrightarrow> item_of e \<noteq> NULL \<and> item_id (h0 (item_of e)) \<noteq> None"
    and st: "stamp_inv sys s"
    and bound: "unat (next_ID s) + 2 < 2 ^ 32"
    and ret: "worker_pair sys e s = Returned (e', go) s1"
  shows "stamp_inv sys s1 \<and> unat (next_ID s1) \<le> unat (next_ID s) + 1 \<and>
         (is_insert e \<and> item_of e' = item_of e \<longrightarrow>
            item_id (heap s1 (item_of e)) =
              Some (SEXP_string (stamp_format (getpid sys) (next_stamp sys s))) \<and>
            (\<forall>q \<in> canonical s. item_id (heap s1 q) \<noteq> item_id (heap s1 (item_of e))))"
  (is "?G1 \<and> ?G2 \<and> ?G3")
proof (cases "is_insert e")
  case False
  with ret have "worker_nop sys e s = Returned (e', go) s1"
    by (simp add: worker_pair_def is_insert_def)
  from worker_nop_Returned [OF this] obtain es where s1: "s1 = s\<lparr>trace := trace s @ es\<rparr>"
    by blast
  then have "tree s1 = tree s" "heap s1 = heap s" "next_ID s1 = next_ID s" by simp_all
  with st have ?G1 ?G2 by (auto intro: stamp_inv_eq)
  with False show ?thesis by simp
next
  case True
  let ?p = "item_of e"
  from True fr have fresh: "?p \<notin> canonical s" by simp
  with inv have hp: "heap s ?p = h0 ?p" unfolding dedup_inv_def by blast
  from True wf hp have nn: "?p \<noteq> NULL" and idp: "item_id (heap s ?p) \<noteq> None" by simp_all
  from True ret have ins: "worker_insert sys e s = Returned (e', go) s1"
    by (simp add: worker_pair_def is_insert_def)
  from ins show ?thesis
  proof (cases rule: worker_insert_cases)
    case (hit cached i)
    from hit(1,2) have "cached ! i \<in> canonical s"
      by (auto simp: canonical_def bucket_of_def intro!: exI [of _ "SEXP_ID_v sys (heap s ?p)"])
    with fresh hit(5) have "item_of e' \<noteq> ?p" by (auto simp: item_of_def)
    moreover from st hit(7,8,9) have ?G1 by (rule stamp_inv_eq)
    moreover from hit(9) have ?G2 by simp
    ultimately show ?thesis by simp
  next
    case (miss es)
    let ?S = "SEXP_string (stamp_format (getpid sys) (next_stamp sys s))"
    from idp have "SEXP_listp (heap s ?p)" by (rule item_id_listp)
    with miss(8) nn have h: "heap s1 = (heap s)(?p := item_replace_id (heap s ?p) ?S)"
      and n: "next_ID s1 = next_ID s + 1"
      by auto
    from miss(7) have c1: "canonical s1 = insert ?p (canonical s)" by (rule canonical_tree_upd)
    from bound n have ns: "next_stamp sys s1 = next_stamp sys s + 1" by (rule next_stamp_Suc)
    from h idp have sp: "item_id (heap s1 ?p) = Some ?S" by (simp add: item_id_replace)
    from h fresh have old: "\<And>q. q \<in> canonical s \<Longrightarrow> heap s1 q = heap s q" by auto
    from st have s_a: "\<And>q. q \<in> canonical s \<Longrightarrow> \<exists>c < next_stamp sys s.
          item_id (heap s q) = Some (SEXP_string (stamp_format (getpid sys) c))"
      and s_b: "\<And>q q'. q \<in> canonical s \<Longrightarrow> q' \<in> canonical s \<Longrightarrow>
          item_id (heap s q) = item_id (heap s q') \<Longrightarrow> q = q'"
      unfolding stamp_inv_def by blast+
    have diff: "item_id (heap s1 q) \<noteq> item_id (heap s1 ?p)" if q: "q \<in> canonical s" for q
    proof
      assume e: "item_id (heap s1 q) = item_id (heap s1 ?p)"
      from s_a [OF q] obtain c where c: "c < next_stamp sys s"
        and "item_id (heap s q) = Some (SEXP_string (stamp_format (getpid sys) c))" by blast
      with e old [OF q] sp have "stamp_format (getpid sys) c = stamp_format (getpid sys) (next_stamp sys s)"
        by simp
      then have "c = next_stamp sys s" by (rule stamp_format_inj)
      with c show False by simp
    qed
    have A: "\<exists>c < next_stamp sys s1.
          item_id (heap s1 q) = Some (SEXP_string (stamp_format (getpid sys) c))"
      if q: "q \<in> canonical s1" for q
    proof (cases "q = ?p")
      case True
      with sp ns show ?thesis by auto
    next
      case False
      with q c1 have qc: "q \<in> canonical s" by simp
      from s_a [OF qc] old [OF qc] ns show ?thesis by (auto intro: less_SucI)
    qed
    have B: "q = q'" if "q \<in> canonical s1" "q' \<in> canonical s1"
      "item_id (heap s1 q) = item_id (heap s1 q')" for q q'
    proof (cases "q = ?p")
      case qp: True
      show ?thesis
      proof (cases "q' = ?p")
        case True with qp show ?thesis by simp
      next
        case False
        with that(2) c1 have "q' \<in> canonical s" by simp
        from diff [OF this] that(3) qp show ?thesis by simp
      qed
    next
      case qp: False
      with that(1) c1 have qc: "q \<in> canonical s" by simp
      show ?thesis
      proof (cases "q' = ?p")
        case True
        with diff [OF qc] that(3) show ?thesis by simp
      next
        case False
        with that(2) c1 have qc': "q' \<in> canonical s" by simp
        from s_b [OF qc qc'] that(3) old [OF qc] old [OF qc'] show ?thesis by simp
      qed
    qed
    have ?G1 unfolding stamp_inv_def using A B by blast
    moreover have ?G2 using n bound by (simp add: unat_word_ariths)
    moreover have ?G3 using sp diff by simp
    ultimately show ?thesis by (intro conjI)
  qed
qed

text \<open>The worker handling a list of entries keeps the invariant of the stamps.\<close>

lemma worker_pairs_stamps:
  assumes eqv: "deepcmp_equiv sys"
  shows "dedup_inv sys h0 s \<Longrightarrow> fresh_items pairs s \<Longrightarrow> items_wf pairs h0 \<Longrightarrow>
     stamp_inv sys s \<Longrightarrow> unat (next_ID s) + length pairs + 1 < 2 ^ 32 \<Longrightarrow>
     worker_pairs sys pairs s = Returned pairs' s' \<Longrightarrow>
     stamp_inv sys s' \<and> unat (next_ID s') \<le> unat (next_ID s) + length pairs"
proof (induction pairs arbitrary: s pairs' s')
  case Nil
  then show ?case by simp
next
  case (Cons e rest)
  from Cons.prems(6) obtain e' s1 rest' where
    st: "worker_pair sys e s = Returned (e', True) s1" and
    run: "worker_pairs sys rest s1 = Returned rest' s'" and
    p': "pairs' = e' # rest'"
    by (rule worker_pairs_Cons)
  note fh = fresh_items_head [OF Cons.prems(2)]
  note step = worker_pair_step [OF eqv Cons.prems(1) fh st]
  from step have i1: "dedup_inv sys h0 s1"
    and c1: "canonical s1 \<subseteq> (if is_insert e then insert (item_of e) (canonical s) else canonical s)"
    by blast+
  from Cons.prems(2) c1 have f1: "fresh_items rest s1" by (rule fresh_items_tail)
  from Cons.prems(3) have wfe: "is_insert e \<longrightarrow> item_of e \<noteq> NULL \<and> item_id (h0 (item_of e)) \<noteq> None"
    and wfr: "items_wf rest h0" by (simp_all add: items_wf_def)
  from Cons.prems(5) have b: "unat (next_ID s) + 2 < 2 ^ 32" by simp
  from worker_pair_stamp [OF Cons.prems(1) fh wfe Cons.prems(4) b st]
  have s1: "stamp_inv sys s1" and n1: "unat (next_ID s1) \<le> unat (next_ID s) + 1" by blast+
  from n1 Cons.prems(5) have b1: "unat (next_ID s1) + length rest + 1 < 2 ^ 32" by simp
  from Cons.IH [OF i1 f1 wfr s1 b1 run] n1 show ?case by simp
qed

lemma worker_pairs_append:
  "worker_pairs sys (xs @ ys) s = Returned zs s' \<Longrightarrow>
     \<exists>xs' s1 ys'. worker_pairs sys xs s = Returned xs' s1 \<and>
        worker_pairs sys ys s1 = Returned ys' s' \<and> zs = xs' @ ys'"
proof (induction xs arbitrary: s zs)
  case Nil
  then show ?case by simp
next
  case (Cons e xs)
  from Cons.prems have "worker_pairs sys (e # (xs @ ys)) s = Returned zs s'" by simp
  then obtain e' t rest' where st: "worker_pair sys e s = Returned (e', True) t"
    and run: "worker_pairs sys (xs @ ys) t = Returned rest' s'" and zs: "zs = e' # rest'"
    by (rule worker_pairs_Cons)
  from Cons.IH [OF run] obtain xs' s1 ys' where
    "worker_pairs sys xs t = Returned xs' s1" "worker_pairs sys ys s1 = Returned ys' s'"
    "rest' = xs' @ ys'" by blast
  with st zs show ?case by simp
qed

lemma canonical_empty: "tree s = Map.empty \<Longrightarrow> canonical s = {}"
  by (simp add: canonical_def bucket_of_def)

lemma dedup_inv_init: "tree s = Map.empty \<Longrightarrow> dedup_inv sys (heap s) s"
  by (simp add: dedup_inv_def bucket_of_def)

lemma stamp_inv_init: "tree s = Map.empty \<Longrightarrow> stamp_inv sys s"
  by (simp add: stamp_inv_def canonical_empty)

lemma fresh_items_init:
  "tree s = Map.empty \<Longrightarrow> distinct (map item_of (filter is_insert pairs)) \<Longrightarrow> fresh_items pairs s"
  by (simp add: fresh_items_def canonical_empty)

lemma fresh_items_prefix: "fresh_items (xs @ ys) s \<Longrightarrow> fresh_items xs s"
  by (simp add: fresh_items_def)

lemma fresh_items_suffix:
  assumes "fresh_items (xs @ ys) s"
    and "canonical s1 \<subseteq> canonical s \<union> item_of ` {e \<in> set xs. is_insert e}"
  shows "fresh_items ys s1"
proof -
  from assms(1) have d: "distinct (map item_of (filter is_insert ys))"
    and dj: "item_of ` {e \<in> set xs. is_insert e} \<inter> item_of ` {e \<in> set ys. is_insert e} = {}"
    and nc: "\<And>y. y \<in> set ys \<Longrightarrow> is_insert y \<Longrightarrow> item_of y \<notin> canonical s"
    by (auto simp: fresh_items_def)
  have "item_of y \<notin> canonical s1" if y: "y \<in> set ys" "is_insert y" for y
  proof
    assume "item_of y \<in> canonical s1"
    with assms(2) nc [OF y] have "item_of y \<in> item_of ` {e \<in> set xs. is_insert e}" by blast
    moreover from y have "item_of y \<in> item_of ` {e \<in> set ys. is_insert e}" by blast
    ultimately show False using dj by blast
  qed
  with d show ?thesis by (simp add: fresh_items_def)
qed

lemma worker_insert_scan:
  "tree s (SEXP_ID_v sys (heap s (item_of e))) = Some cached \<Longrightarrow>
   bucket_scan sys s (item_of e) cached 0 < length cached \<Longrightarrow>
   worker_insert sys e s =
     worker_collect sys (e\<lparr>pair_p := P_item (cached ! bucket_scan sys s (item_of e) cached 0)\<rparr>)
       (sexp_free (item_of e) s)"
  by (simp add: worker_insert_unfold item_of_def Let_def)

subsection \<open>Equal items share one canonical item\<close>

text \<open>
  A run of the worker from an empty index, cut at one of its entries: the states before
  and after that entry, with the invariant in both.
\<close>

lemma run_split:
  assumes eqv: "deepcmp_equiv sys" and empty: "tree s0 = Map.empty"
    and dist: "distinct (map item_of (filter is_insert (pre @ e # post)))"
    and run: "worker_pairs sys (pre @ e # post) s0 = Returned pairs' s'"
  obtains pre' s e' s1 post' where
    "worker_pairs sys pre s0 = Returned pre' s"
    "worker_pair sys e s = Returned (e', True) s1"
    "worker_pairs sys post s1 = Returned post' s'"
    "pairs' = pre' @ e' # post'" "length pre' = length pre"
    "dedup_inv sys (heap s0) s" "fresh_items pre s0" "fresh_items (e # post) s"
    "dedup_inv sys (heap s0) s1" "fresh_items post s1"
    "canonical s \<subseteq> item_of ` {x \<in> set pre. is_insert x}"
proof -
  from worker_pairs_append [OF run] obtain pre' s rest' where
    rp: "worker_pairs sys pre s0 = Returned pre' s" and
    rr: "worker_pairs sys (e # post) s = Returned rest' s'" and
    pp: "pairs' = pre' @ rest'" by blast
  from rr obtain e' s1 post' where
    st: "worker_pair sys e s = Returned (e', True) s1" and
    rpost: "worker_pairs sys post s1 = Returned post' s'" and
    rest': "rest' = e' # post'" by (rule worker_pairs_Cons)
  from empty have i0: "dedup_inv sys (heap s0) s0" by (rule dedup_inv_init)
  from empty dist have f0: "fresh_items (pre @ e # post) s0" by (rule fresh_items_init)
  then have fp: "fresh_items pre s0" by (rule fresh_items_prefix)
  from worker_pairs_frame [OF eqv i0 fp rp] have i: "dedup_inv sys (heap s0) s"
    and l: "length pre' = length pre"
    and c: "canonical s \<subseteq> canonical s0 \<union> item_of ` {x \<in> set pre. is_insert x}"
    by blast+
  from f0 c have fs: "fresh_items (e # post) s" by (rule fresh_items_suffix)
  from c empty have c': "canonical s \<subseteq> item_of ` {x \<in> set pre. is_insert x}"
    by (simp add: canonical_empty)
  note step = worker_pair_step [OF eqv i fresh_items_head [OF fs] st]
  from step have i1: "dedup_inv sys (heap s0) s1"
    and c1: "canonical s1 \<subseteq> (if is_insert e then insert (item_of e) (canonical s) else canonical s)"
    by blast+
  from fs c1 have f1: "fresh_items post s1" by (rule fresh_items_tail)
  from rp st rpost pp rest' l i fp fs i1 f1 c' show thesis by (auto intro: that)
qed

text \<open>
  A hit on entries that no other thread touches. The worker starts with an empty index
  and handles the entries \<open>pre @ e # post\<close>, whose items are at distinct addresses; \<open>e\<close>
  is an Insert whose item has the fingerprint of, and is equal to, the item of the
  earlier Insert \<open>pre ! i\<close>. Then, when the worker comes to \<open>e\<close>, the canonical item \<open>c\<close>
  that stands for \<open>pre ! i\<close> is in the bucket of the fingerprint and equal to the item of
  \<open>e\<close>; the worker frees the item of \<open>e\<close>, puts \<open>c\<close> into the entry and appends \<open>c\<close> to the
  destination, which is all it does (so the stamp of \<open>c\<close> is as it was, and stays so to
  the end of the run). At the end both entries carry \<open>c\<close>, and every destination has
  received, in order, the items that the Inserts for it carry then.
\<close>

theorem equal_item_replaced_by_canonical:
  assumes eqv: "deepcmp_equiv sys" and empty: "tree s0 = Map.empty"
    and dist: "distinct (map item_of (filter is_insert (pre @ e # post)))"
    and run: "worker_pairs sys (pre @ e # post) s0 = Returned pairs' s'"
    and i: "i < length pre" and ii: "is_insert (pre ! i)" and ie: "is_insert e"
    and fp: "SEXP_ID_v sys (heap s0 (item_of e)) = SEXP_ID_v sys (heap s0 (item_of (pre ! i)))"
    and eq: "SEXP_deepcmp sys (heap s0 (item_of e)) (heap s0 (item_of (pre ! i)))"
  shows "\<exists>pre' s c.
      worker_pairs sys pre s0 = Returned pre' s \<and>
      c = item_of (pre' ! i) \<and>
      c \<in> set (bucket_of s (SEXP_ID_v sys (heap s (item_of e)))) \<and>
      SEXP_deepcmp sys (heap s (item_of e)) (heap s c) \<and>
      worker_pair sys e s =
        worker_collect sys (e\<lparr>pair_p := P_item c\<rparr>) (sexp_free (item_of e) s) \<and>
      item_of (pairs' ! i) = c \<and> item_of (pairs' ! length pre) = c \<and>
      SEXP_free (item_of e) \<in> set (trace s') \<and>
      heap s' c = heap s c \<and>
      (\<forall>d. cobjs s' d = cobjs s0 d @
             map item_of (filter (\<lambda>x. pair_cobj x = d \<and> is_insert x) pairs'))"
proof -
  let ?h0 = "heap s0"
  let ?p = "item_of e"
  let ?k = "SEXP_ID_v sys (?h0 ?p)"
  from eqv empty dist run obtain pre' s e' s1 post' where
    rp: "worker_pairs sys pre s0 = Returned pre' s" and
    st: "worker_pair sys e s = Returned (e', True) s1" and
    rpost: "worker_pairs sys post s1 = Returned post' s'" and
    pp: "pairs' = pre' @ e' # post'" and l: "length pre' = length pre" and
    inv: "dedup_inv sys ?h0 s" and fpre: "fresh_items pre s0" and
    fs: "fresh_items (e # post) s" and
    i1: "dedup_inv sys ?h0 s1" and f1: "fresh_items post s1"
    by (rule run_split)
  from empty have i0: "dedup_inv sys ?h0 s0" by (rule dedup_inv_init)
  from empty dist have f0: "fresh_items (pre @ e # post) s0" by (rule fresh_items_init)
  from fs ie have fresh: "?p \<notin> canonical s" by (simp add: fresh_items_def)
  with inv have hp: "heap s ?p = ?h0 ?p" unfolding dedup_inv_def by blast
  let ?c = "item_of (pre' ! i)"
  from worker_pairs_reps [OF eqv i0 fpre rp i ii] fp have
    cm: "?c \<in> set (bucket_of s ?k)" and
    cd: "?c = item_of (pre ! i) \<or> SEXP_deepcmp sys (?h0 (item_of (pre ! i))) (?h0 ?c)"
    by auto
  from eqv have trans: "\<And>a b c. SEXP_deepcmp sys a b \<Longrightarrow> SEXP_deepcmp sys b c \<Longrightarrow> SEXP_deepcmp sys a c"
    unfolding deepcmp_equiv_def by blast
  from cd eq have dc0: "SEXP_deepcmp sys (?h0 ?p) (?h0 ?c)" by (auto intro: trans)
  then have dcs: "SEXP_deepcmp sys (heap s ?p) (heap s ?c)"
    by (simp add: deepcmp_heap [OF eqv inv])
  note step = worker_pair_step [OF eqv inv fresh_items_head [OF fs] st]
  from step ie cm dc0 have e'c: "item_of e' = ?c" by blast
  from step ie have d: "item_of e' = ?p \<or> SEXP_free ?p \<in> set (trace s1)" by blast
  from cm have cc: "?c \<in> canonical s" by (auto simp: canonical_def)
  with fresh e'c d have fr1: "SEXP_free ?p \<in> set (trace s1)" by auto
  from worker_pairs_frame [OF eqv i1 f1 rpost] have
    t2: "\<exists>es. trace s' = trace s1 @ es" by blast
  from t2 fr1 have freed: "SEXP_free ?p \<in> set (trace s')" by (rule trace_append_mono)
  \<comment> \<open>the step is the hit branch\<close>
  from cm obtain cached where ts: "tree s ?k = Some cached" and b: "bucket_of s ?k = cached"
    by (cases "tree s ?k") (auto simp: bucket_of_def)
  let ?i = "bucket_scan sys s ?p cached 0"
  from cm b obtain n where n: "n < length cached" and cn: "?c = cached ! n"
    by (auto simp: in_set_conv_nth)
  from bucket_scan_spec [of 0 cached sys s ?p] have
    le: "?i \<le> length cached" and
    nm: "\<forall>m < ?i. \<not> SEXP_deepcmp sys (heap s ?p) (heap s (cached ! m))"
    by simp_all
  from nm n dcs cn have "\<not> n < ?i" by auto
  with n have lt: "?i < length cached" by simp
  from ts hp have ts': "tree s (SEXP_ID_v sys (heap s ?p)) = Some cached" by simp
  from worker_insert_scan [OF ts' lt] ie
  have weq: "worker_pair sys e s =
      worker_collect sys (e\<lparr>pair_p := P_item (cached ! ?i)\<rparr>) (sexp_free ?p s)"
    by (simp add: worker_pair_def is_insert_def)
  with st have "worker_collect sys (e\<lparr>pair_p := P_item (cached ! ?i)\<rparr>) (sexp_free ?p s)
      = Returned (e', True) s1" by simp
  from worker_collect_Returned [OF this] have "item_of e' = cached ! ?i"
    by (simp add: item_of_def)
  with e'c have ci: "cached ! ?i = ?c" by simp
  \<comment> \<open>the end of the run\<close>
  from i l pp have pi: "item_of (pairs' ! i) = ?c" by (simp add: nth_append)
  from l pp e'c have pj: "item_of (pairs' ! length pre) = ?c" by (simp add: nth_append)
  have rr: "worker_pairs sys (e # post) s = Returned (e' # post') s'"
    using st rpost by simp
  from worker_pairs_frame [OF eqv inv fs rr] have
    hh: "\<forall>x. x \<notin> item_of ` {y \<in> set (e # post). is_insert y} \<longrightarrow> heap s' x = heap s x"
    by blast
  from fs cc have "?c \<notin> item_of ` {y \<in> set (e # post). is_insert y}"
    by (auto simp: fresh_items_def)
  with hh have stable: "heap s' ?c = heap s ?c" by simp
  from worker_pairs_frame [OF eqv i0 f0 run] have
    co: "\<forall>d. cobjs s' d = cobjs s0 d @
             map item_of (filter (\<lambda>x. pair_cobj x = d \<and> is_insert x) pairs')"
    by blast
  from cm hp have cm': "?c \<in> set (bucket_of s (SEXP_ID_v sys (heap s ?p)))" by simp
  from weq ci have weq': "worker_pair sys e s =
      worker_collect sys (e\<lparr>pair_p := P_item ?c\<rparr>) (sexp_free ?p s)" by simp
  from rp cm' dcs weq' pi pj freed stable co show ?thesis by blast
qed

subsection \<open>Unequal items under one fingerprint\<close>

text \<open>
  Claim C3, as the spec states it: of two items with one fingerprint that are not equal,
  the later one is added to the bucket, stamped and appended. Not when it is equal to a
  third, stored item: the items 11, 12 and 14 are submitted to a cache of four slots,
  and the worker handles them with no producer running meanwhile. Item 14 has the
  fingerprint of item 11 and is not equal to it; when the worker takes it, the bucket
  holds the items 11 and 12. Item 14 is equal to item 12: it is released and never
  stamped, the bucket stays as it is, and item 12 is appended once more.
\<close>

theorem unequal_item_hits_third_counterexample:
  "SEXP_ID_v ex_sys (heap ex_state 14) = SEXP_ID_v ex_sys (heap ex_state 11) \<and>
   \<not> SEXP_deepcmp ex_sys (heap ex_state 14) (heap ex_state 11) \<and>
   map_option (\<lambda>(w, s). (w, slot_read s 2, tree s 7, cobjs s 2))
     (process ex_sys 4 ex_state
        [Worker_moves, Call_add 1 2 11, Call_add 1 2 12, Call_add 1 2 14,
         Worker_moves, Worker_moves, Worker_moves, Worker_moves, Worker_moves,
         Worker_moves, Worker_moves, Worker_moves, Worker_moves, Worker_moves]) =
     Some (W_pair 2, Some \<lparr>pair_cobj = 2, pair_p = P_item 14\<rparr>, Some [11, 12], [11, 12]) \<and>
   map_option (\<lambda>(w, s). (w, slot_read s 2, tree s 7, cobjs s 2, SEXP_free 14 \<in> set (trace s),
        map (\<lambda>x. item_id (heap s x)) [11, 12, 14], next_ID s))
     (process ex_sys 4 ex_state
        [Worker_moves, Call_add 1 2 11, Call_add 1 2 12, Call_add 1 2 14,
         Worker_moves, Worker_moves, Worker_moves, Worker_moves, Worker_moves,
         Worker_moves, Worker_moves, Worker_moves, Worker_moves, Worker_moves,
         Worker_moves, Worker_moves, Worker_moves, Worker_moves]) =
     Some (W_wait, Some \<lparr>pair_cobj = 2, pair_p = P_item 12\<rparr>, Some [11, 12], [11, 12, 12], True,
           [Some (SEXP_string ''1000420''), Some (SEXP_string ''1000421''), Some (SEXP_string [])], 2)"
  by code_simp

lemma item_replace_id_twice: "item_replace_id (item_replace_id a v) w = item_replace_id a w"
  by (auto simp: item_replace_id_def SEXP_list_replace_def split: sexp.splits list.splits)

lemma ex_deepcmp_equiv: "deepcmp_equiv ex_sys"
  by (simp add: deepcmp_equiv_def ex_sys_def ex_deepcmp_def item_replace_id_twice)

lemma ex_run_four:
  "(case worker_pairs ex_sys [ex_pair 11, ex_pair 12, ex_pair 13, ex_pair 14] ex_state of
      Returned pairs' s' \<Rightarrow> Some (map item_of pairs')
    | _ \<Rightarrow> None) = Some [11, 12, 11, 12]"
  by code_simp

lemma items_wf_mem: "items_wf pairs h0 \<Longrightarrow> e \<in> set pairs \<Longrightarrow>
    is_insert e \<longrightarrow> item_of e \<noteq> NULL \<and> item_id (h0 (item_of e)) \<noteq> None"
  by (simp add: items_wf_def)

lemma items_wf_prefix: "items_wf (xs @ ys) h0 \<Longrightarrow> items_wf xs h0"
  by (simp add: items_wf_def)

lemma stamp_inv_canonical:
  assumes "stamp_inv sys s" and "q \<in> canonical s"
  obtains c where "item_id (heap s q) = Some (SEXP_string (stamp_format (getpid sys) c))"
  using assms unfolding stamp_inv_def by blast

lemma stamp_inv_distinct:
  assumes "stamp_inv sys s" and "q \<in> canonical s" and "q' \<in> canonical s" and "q \<noteq> q'"
  shows "item_id (heap s q) \<noteq> item_id (heap s q')"
  using assms unfolding stamp_inv_def by blast

text \<open>
  Claim C3, amended. The worker starts with an empty index and handles, with no other
  thread touching them, the entries \<open>pre @ e # post\<close>, whose items are at distinct
  addresses and have a stamp field; \<open>e\<close> is an Insert whose item has the fingerprint of
  the item of the earlier Insert \<open>pre ! i\<close> and is not equal to it. Then the two Inserts
  end with two different stored items, which carry two different stamps of this process
  and keep them to the end of the run. When no item stored under the fingerprint is
  equal to the item of \<open>e\<close>, the step of \<open>e\<close> is a collision-miss: the item is added at the
  end of the bucket, stamped with the next counter value, which is the stamp of no
  stored item, and appended to the destination, and nothing is released. Otherwise the
  step is a hit on a stored item equal to it: the item is released and the stored item
  is appended, the index, the items and the counter being left as they are. Every later
  Insert whose item has the fingerprint of and is equal to one of the two items ends with
  the stored item of that one, its own item being released.
\<close>

theorem unequal_items_distinct_stamps:
  assumes eqv: "deepcmp_equiv sys" and empty: "tree s0 = Map.empty"
    and dist: "distinct (map item_of (filter is_insert (pre @ e # post)))"
    and wf: "items_wf (pre @ e # post) (heap s0)"
    and bound: "unat (next_ID s0) + length (pre @ e # post) + 1 < 2 ^ 32"
    and run: "worker_pairs sys (pre @ e # post) s0 = Returned pairs' s'"
    and i: "i < length pre" and ii: "is_insert (pre ! i)" and ie: "is_insert e"
    and fp: "SEXP_ID_v sys (heap s0 (item_of e)) = SEXP_ID_v sys (heap s0 (item_of (pre ! i)))"
    and neq: "\<not> SEXP_deepcmp sys (heap s0 (item_of e)) (heap s0 (item_of (pre ! i)))"
  shows "\<exists>pre' s e' s1 ni ne.
      worker_pairs sys pre s0 = Returned pre' s \<and>
      worker_pair sys e s = Returned (e', True) s1 \<and>
      item_of (pairs' ! i) = item_of (pre' ! i) \<and>
      item_of (pairs' ! length pre) = item_of e' \<and>
      item_of (pre' ! i) \<noteq> item_of e' \<and>
      item_id (heap s' (item_of (pre' ! i))) =
        Some (SEXP_string (stamp_format (getpid sys) ni)) \<and>
      item_id (heap s' (item_of e')) =
        Some (SEXP_string (stamp_format (getpid sys) ne)) \<and>
      stamp_format (getpid sys) ni \<noteq> stamp_format (getpid sys) ne \<and>
      heap s' (item_of (pre' ! i)) = heap s (item_of (pre' ! i)) \<and>
      heap s' (item_of e') = heap s1 (item_of e') \<and>
      (if \<exists>q \<in> set (bucket_of s (SEXP_ID_v sys (heap s (item_of e)))).
            SEXP_deepcmp sys (heap s (item_of e)) (heap s q)
       then
         item_of e' \<in> set (bucket_of s (SEXP_ID_v sys (heap s (item_of e)))) \<and>
         SEXP_deepcmp sys (heap s (item_of e)) (heap s (item_of e')) \<and>
         tree s1 = tree s \<and> heap s1 = heap s \<and> next_ID s1 = next_ID s \<and>
         trace s1 = trace s @ [SEXP_free (item_of e), Cobj_add_item (pair_cobj e) (item_of e')] \<and>
         cobjs s1 = (cobjs s)(pair_cobj e := cobjs s (pair_cobj e) @ [item_of e'])
       else
         e' = e \<and>
         bucket_of s1 (SEXP_ID_v sys (heap s (item_of e))) =
           bucket_of s (SEXP_ID_v sys (heap s (item_of e))) @ [item_of e] \<and>
         heap s1 = (heap s)(item_of e := item_replace_id (heap s (item_of e))
                      (SEXP_string (stamp_format (getpid sys) (next_stamp sys s)))) \<and>
         next_ID s1 = next_ID s + 1 \<and>
         item_id (heap s1 (item_of e)) =
           Some (SEXP_string (stamp_format (getpid sys) (next_stamp sys s))) \<and>
         (\<forall>q \<in> canonical s. item_id (heap s1 q) \<noteq> item_id (heap s1 (item_of e))) \<and>
         (\<exists>es. trace s1 = trace s @ es \<and> (\<forall>x. SEXP_free x \<notin> set es)) \<and>
         cobjs s1 = (cobjs s)(pair_cobj e := cobjs s (pair_cobj e) @ [item_of e])) \<and>
      (\<forall>j. i < j \<and> j < length (pre @ e # post) \<and> is_insert ((pre @ e # post) ! j) \<and>
           SEXP_ID_v sys (heap s0 (item_of ((pre @ e # post) ! j))) =
             SEXP_ID_v sys (heap s0 (item_of (pre ! i))) \<and>
           SEXP_deepcmp sys (heap s0 (item_of ((pre @ e # post) ! j))) (heap s0 (item_of (pre ! i)))
           \<longrightarrow> item_of (pairs' ! j) = item_of (pre' ! i) \<and>
               SEXP_free (item_of ((pre @ e # post) ! j)) \<in> set (trace s')) \<and>
      (\<forall>j. length pre < j \<and> j < length (pre @ e # post) \<and> is_insert ((pre @ e # post) ! j) \<and>
           SEXP_ID_v sys (heap s0 (item_of ((pre @ e # post) ! j))) =
             SEXP_ID_v sys (heap s0 (item_of e)) \<and>
           SEXP_deepcmp sys (heap s0 (item_of ((pre @ e # post) ! j))) (heap s0 (item_of e))
           \<longrightarrow> item_of (pairs' ! j) = item_of e' \<and>
               SEXP_free (item_of ((pre @ e # post) ! j)) \<in> set (trace s'))"
proof -
  let ?h0 = "heap s0"
  let ?p = "item_of e"
  let ?L = "pre @ e # post"
  from eqv empty dist run obtain pre' s e' s1 post' where
    rp: "worker_pairs sys pre s0 = Returned pre' s" and
    st: "worker_pair sys e s = Returned (e', True) s1" and
    rpost: "worker_pairs sys post s1 = Returned post' s'" and
    pp: "pairs' = pre' @ e' # post'" and l: "length pre' = length pre" and
    inv: "dedup_inv sys ?h0 s" and fpre: "fresh_items pre s0" and
    fs: "fresh_items (e # post) s" and
    i1: "dedup_inv sys ?h0 s1" and f1: "fresh_items post s1"
    by (rule run_split)
  from empty have i0: "dedup_inv sys ?h0 s0" by (rule dedup_inv_init)
  from empty have st0: "stamp_inv sys s0" by (rule stamp_inv_init)
  from empty dist have f0: "fresh_items ?L s0" by (rule fresh_items_init)
  from eqv have sym: "\<And>a b. SEXP_deepcmp sys a b \<Longrightarrow> SEXP_deepcmp sys b a"
    and trans: "\<And>a b c. SEXP_deepcmp sys a b \<Longrightarrow> SEXP_deepcmp sys b c \<Longrightarrow> SEXP_deepcmp sys a c"
    unfolding deepcmp_equiv_def by blast+
  from fs ie have fresh: "?p \<notin> canonical s" by (simp add: fresh_items_def)
  with inv have hp: "heap s ?p = ?h0 ?p" unfolding dedup_inv_def by blast
  let ?k = "SEXP_ID_v sys (heap s ?p)"
  have k: "?k = SEXP_ID_v sys (?h0 ?p)" by (simp add: hp)
  let ?ci = "item_of (pre' ! i)"
  let ?ce = "item_of e'"
  \<comment> \<open>the entries at the end\<close>
  from i l pp have pi: "item_of (pairs' ! i) = ?ci" by (simp add: nth_append)
  from l pp have pe: "item_of (pairs' ! length pre) = ?ce" by (simp add: nth_append)
  have Li: "?L ! i = pre ! i" using i by (simp add: nth_append)
  have Le: "?L ! length pre = e" by simp
  have iL: "i < length ?L" and eL: "length pre < length ?L" using i by simp_all
  \<comment> \<open>the two representatives are stored items, and differ\<close>
  from worker_pairs_reps [OF eqv i0 f0 run iL] ii Li pi have
    ci_b: "?ci \<in> set (bucket_of s' (SEXP_ID_v sys (?h0 (item_of (pre ! i)))))" and
    ci_r: "?ci = item_of (pre ! i) \<or> SEXP_deepcmp sys (?h0 (item_of (pre ! i))) (?h0 ?ci)"
    by auto
  from worker_pairs_reps [OF eqv i0 f0 run eL] ie Le pe have
    ce_b: "?ce \<in> set (bucket_of s' (SEXP_ID_v sys (?h0 ?p)))" and
    ce_r: "?ce = ?p \<or> SEXP_deepcmp sys (?h0 ?p) (?h0 ?ce)"
    by auto
  from dist i have pdiff: "item_of (pre ! i) \<noteq> ?p"
  proof -
    have "pre ! i \<in> set pre" using i by simp
    with ii have "item_of (pre ! i) \<in> set (map item_of (filter is_insert pre))" by auto
    with dist ie show ?thesis by auto
  qed
  have diff: "?ci \<noteq> ?ce"
  proof
    assume same: "?ci = ?ce"
    from ci_r ce_r show False
    proof (elim disjE)
      assume "?ci = item_of (pre ! i)" "?ce = ?p"
      with same pdiff show False by simp
    next
      assume "?ci = item_of (pre ! i)" "SEXP_deepcmp sys (?h0 ?p) (?h0 ?ce)"
      with same neq show False by simp
    next
      assume "SEXP_deepcmp sys (?h0 (item_of (pre ! i))) (?h0 ?ci)" "?ce = ?p"
      with same have "SEXP_deepcmp sys (?h0 (item_of (pre ! i))) (?h0 ?p)" by simp
      with neq sym show False by blast
    next
      assume a: "SEXP_deepcmp sys (?h0 (item_of (pre ! i))) (?h0 ?ci)"
        and b: "SEXP_deepcmp sys (?h0 ?p) (?h0 ?ce)"
      from a same have "SEXP_deepcmp sys (?h0 ?ce) (?h0 (item_of (pre ! i)))" by (simp add: sym)
      with b have "SEXP_deepcmp sys (?h0 ?p) (?h0 (item_of (pre ! i)))" by (rule trans)
      with neq show False by simp
    qed
  qed
  from ci_b have ci_c: "?ci \<in> canonical s'" by (auto simp: canonical_def)
  from ce_b have ce_c: "?ce \<in> canonical s'" by (auto simp: canonical_def)
  \<comment> \<open>the stamps at the end\<close>
  from worker_pairs_stamps [OF eqv i0 f0 wf st0 bound run] have st': "stamp_inv sys s'" by simp
  from st' ci_c obtain ni where
    ni: "item_id (heap s' ?ci) = Some (SEXP_string (stamp_format (getpid sys) ni))"
    by (rule stamp_inv_canonical)
  from st' ce_c obtain ne where
    ne: "item_id (heap s' ?ce) = Some (SEXP_string (stamp_format (getpid sys) ne))"
    by (rule stamp_inv_canonical)
  from stamp_inv_distinct [OF st' ci_c ce_c diff] ni ne
  have sdiff: "stamp_format (getpid sys) ni \<noteq> stamp_format (getpid sys) ne" by auto
  \<comment> \<open>the state before \<open>e\<close>\<close>
  from wf have wfpre: "items_wf pre ?h0" by (rule items_wf_prefix)
  from bound have bpre: "unat (next_ID s0) + length pre + 1 < 2 ^ 32" by simp
  from worker_pairs_stamps [OF eqv i0 fpre wfpre st0 bpre rp] have
    sts: "stamp_inv sys s" and ns: "unat (next_ID s) \<le> unat (next_ID s0) + length pre"
    by simp_all
  from ns bound have b2: "unat (next_ID s) + 2 < 2 ^ 32" by simp
  from items_wf_mem [OF wf, of e] have wfe:
    "is_insert e \<longrightarrow> ?p \<noteq> NULL \<and> item_id (?h0 ?p) \<noteq> None" by simp
  note stamp = worker_pair_stamp [OF inv fresh_items_head [OF fs] wfe sts b2 st]
  note step = worker_pair_step [OF eqv inv fresh_items_head [OF fs] st]
  \<comment> \<open>the representatives keep their contents\<close>
  from worker_pairs_reps [OF eqv i0 fpre rp i ii] have
    "?ci \<in> set (bucket_of s (SEXP_ID_v sys (?h0 (item_of (pre ! i)))))" by simp
  then have ci_s: "?ci \<in> canonical s" by (auto simp: canonical_def)
  have rr: "worker_pairs sys (e # post) s = Returned (e' # post') s'"
    using st rpost by simp
  from worker_pairs_frame [OF eqv inv fs rr] have
    hh: "\<forall>x. x \<notin> item_of ` {y \<in> set (e # post). is_insert y} \<longrightarrow> heap s' x = heap s x"
    by blast
  from fs ci_s have "?ci \<notin> item_of ` {y \<in> set (e # post). is_insert y}"
    by (auto simp: fresh_items_def)
  with hh have keep_i: "heap s' ?ci = heap s ?ci" by simp
  from step ie have "?ce \<in> set (bucket_of s1 (SEXP_ID_v sys (?h0 ?p)))" by blast
  then have ce_s1: "?ce \<in> canonical s1" by (auto simp: canonical_def)
  from worker_pairs_frame [OF eqv i1 f1 rpost] have
    hh1: "\<forall>x. x \<notin> item_of ` {y \<in> set post. is_insert y} \<longrightarrow> heap s' x = heap s1 x"
    by blast
  from f1 ce_s1 have "?ce \<notin> item_of ` {y \<in> set post. is_insert y}"
    by (auto simp: fresh_items_def)
  with hh1 have keep_e: "heap s' ?ce = heap s1 ?ce" by simp
  \<comment> \<open>the step of \<open>e\<close>: a hit or a miss\<close>
  from ie st have ins: "worker_insert sys e s = Returned (e', True) s1"
    by (simp add: worker_pair_def is_insert_def)
  have branch: "if \<exists>q \<in> set (bucket_of s ?k). SEXP_deepcmp sys (heap s ?p) (heap s q)
       then
         ?ce \<in> set (bucket_of s ?k) \<and>
         SEXP_deepcmp sys (heap s ?p) (heap s ?ce) \<and>
         tree s1 = tree s \<and> heap s1 = heap s \<and> next_ID s1 = next_ID s \<and>
         trace s1 = trace s @ [SEXP_free ?p, Cobj_add_item (pair_cobj e) ?ce] \<and>
         cobjs s1 = (cobjs s)(pair_cobj e := cobjs s (pair_cobj e) @ [?ce])
       else
         e' = e \<and>
         bucket_of s1 ?k = bucket_of s ?k @ [?p] \<and>
         heap s1 = (heap s)(?p := item_replace_id (heap s ?p)
                      (SEXP_string (stamp_format (getpid sys) (next_stamp sys s)))) \<and>
         next_ID s1 = next_ID s + 1 \<and>
         item_id (heap s1 ?p) =
           Some (SEXP_string (stamp_format (getpid sys) (next_stamp sys s))) \<and>
         (\<forall>q \<in> canonical s. item_id (heap s1 q) \<noteq> item_id (heap s1 ?p)) \<and>
         (\<exists>es. trace s1 = trace s @ es \<and> (\<forall>x. SEXP_free x \<notin> set es)) \<and>
         cobjs s1 = (cobjs s)(pair_cobj e := cobjs s (pair_cobj e) @ [?p])"
  using ins
  proof (cases rule: worker_insert_cases)
    case (miss es)
    from miss(6) have no: "\<not> (\<exists>q \<in> set (bucket_of s ?k). SEXP_deepcmp sys (heap s ?p) (heap s q))"
      by blast
    from miss(5) have e': "e' = e" .
    from miss(7) have b: "bucket_of s1 ?k = bucket_of s ?k @ [?p]"
      by (simp add: bucket_of_def)
    from wfe ie hp have "?p \<noteq> NULL" "SEXP_listp (heap s ?p)"
      by (simp_all add: item_id_listp)
    with miss(8) have h: "heap s1 = (heap s)(?p := item_replace_id (heap s ?p)
                      (SEXP_string (stamp_format (getpid sys) (next_stamp sys s))))"
      and n: "next_ID s1 = next_ID s + 1" by auto
    from stamp ie e' have s1: "item_id (heap s1 ?p) =
           Some (SEXP_string (stamp_format (getpid sys) (next_stamp sys s)))"
      and s2: "\<forall>q \<in> canonical s. item_id (heap s1 q) \<noteq> item_id (heap s1 ?p)" by blast+
    from miss(4) have c: "cobjs s1 = (cobjs s)(pair_cobj e := cobjs s (pair_cobj e) @ [?p])"
      by simp
    from miss(1) miss(2)
    have fr: "\<exists>es. trace s1 = trace s @ es \<and> (\<forall>x. SEXP_free x \<notin> set es)" by blast
    show ?thesis using no e' b h n s1 s2 c fr by simp
  next
    case (hit cached n)
    from hit(1) have b: "bucket_of s ?k = cached" by (simp add: bucket_of_def)
    from hit(5) have ce: "?ce = cached ! n" by (simp add: item_of_def)
    from hit(2) b ce have m: "?ce \<in> set (bucket_of s ?k)" by simp
    from hit(3) ce have d: "SEXP_deepcmp sys (heap s ?p) (heap s ?ce)" by simp
    from m d have yes: "\<exists>q \<in> set (bucket_of s ?k). SEXP_deepcmp sys (heap s ?p) (heap s q)"
      by blast
    from hit(6) ce have t: "trace s1 = trace s @ [SEXP_free ?p, Cobj_add_item (pair_cobj e) ?ce]"
      by simp
    from hit(11) ce have c: "cobjs s1 = (cobjs s)(pair_cobj e := cobjs s (pair_cobj e) @ [?ce])"
      by simp
    show ?thesis using yes m d hit(7) hit(8) hit(9) t c by simp
  qed
  \<comment> \<open>later equal items\<close>
  have later_i: "\<forall>j. i < j \<and> j < length ?L \<and> is_insert (?L ! j) \<and>
           SEXP_ID_v sys (?h0 (item_of (?L ! j))) = SEXP_ID_v sys (?h0 (item_of (pre ! i))) \<and>
           SEXP_deepcmp sys (?h0 (item_of (?L ! j))) (?h0 (item_of (pre ! i)))
           \<longrightarrow> item_of (pairs' ! j) = ?ci \<and> SEXP_free (item_of (?L ! j)) \<in> set (trace s')"
  proof (intro allI impI, elim conjE)
    fix j assume "i < j" "j < length ?L" "is_insert (?L ! j)"
      "SEXP_ID_v sys (?h0 (item_of (?L ! j))) = SEXP_ID_v sys (?h0 (item_of (pre ! i)))"
      "SEXP_deepcmp sys (?h0 (item_of (?L ! j))) (?h0 (item_of (pre ! i)))"
    with worker_pairs_equal [OF eqv i0 f0 run, of i j] ii Li pi
    show "item_of (pairs' ! j) = ?ci \<and> SEXP_free (item_of (?L ! j)) \<in> set (trace s')"
      by simp
  qed
  have later_e: "\<forall>j. length pre < j \<and> j < length ?L \<and> is_insert (?L ! j) \<and>
           SEXP_ID_v sys (?h0 (item_of (?L ! j))) = SEXP_ID_v sys (?h0 ?p) \<and>
           SEXP_deepcmp sys (?h0 (item_of (?L ! j))) (?h0 ?p)
           \<longrightarrow> item_of (pairs' ! j) = ?ce \<and> SEXP_free (item_of (?L ! j)) \<in> set (trace s')"
  proof (intro allI impI, elim conjE)
    fix j assume "length pre < j" "j < length ?L" "is_insert (?L ! j)"
      "SEXP_ID_v sys (?h0 (item_of (?L ! j))) = SEXP_ID_v sys (?h0 ?p)"
      "SEXP_deepcmp sys (?h0 (item_of (?L ! j))) (?h0 ?p)"
    with worker_pairs_equal [OF eqv i0 f0 run, of "length pre" j] ie Le pe
    show "item_of (pairs' ! j) = ?ce \<and> SEXP_free (item_of (?L ! j)) \<in> set (trace s')"
      by simp
  qed
  from rp st pi pe diff ni ne sdiff keep_i keep_e branch later_i later_e
  show ?thesis by blast
qed

theorem unequal_items_distinct_stamps_witness:
  "deepcmp_equiv ex_sys \<and>
   items_wf [ex_pair 11, ex_pair 12, ex_pair 13, ex_pair 14] (heap ex_state) \<and>
   SEXP_ID_v ex_sys (heap ex_state 12) = SEXP_ID_v ex_sys (heap ex_state 11) \<and>
   \<not> SEXP_deepcmp ex_sys (heap ex_state 12) (heap ex_state 11) \<and>
   (\<exists>pairs' s' ni ne.
      worker_pairs ex_sys ([ex_pair 11] @ ex_pair 12 # [ex_pair 13, ex_pair 14]) ex_state =
        Returned pairs' s' \<and>
      map item_of pairs' = [11, 12, 11, 12] \<and>
      item_id (heap s' 11) = Some (SEXP_string (stamp_format 42 ni)) \<and>
      item_id (heap s' 12) = Some (SEXP_string (stamp_format 42 ne)) \<and>
      stamp_format 42 ni \<noteq> stamp_format 42 ne)"
proof -
  let ?L = "[ex_pair 11] @ ex_pair 12 # [ex_pair 13, ex_pair 14]"
  have eqv: "deepcmp_equiv ex_sys" by (rule ex_deepcmp_equiv)
  have wf: "items_wf ?L (heap ex_state)"
    by (simp add: items_wf_def ex_pair_def item_of_def is_insert_def NULL_def ex_state_def
        ex_heap_def ex_item_def item_id_def)
  have fp: "SEXP_ID_v ex_sys (heap ex_state (item_of (ex_pair 12))) =
      SEXP_ID_v ex_sys (heap ex_state (item_of ([ex_pair 11] ! 0)))"
    by (simp add: ex_sys_def)
  have neq: "\<not> SEXP_deepcmp ex_sys (heap ex_state (item_of (ex_pair 12)))
      (heap ex_state (item_of ([ex_pair 11] ! 0)))"
    by (simp add: ex_sys_def ex_deepcmp_def ex_state_def ex_heap_def ex_item_def ex_pair_def
        item_of_def item_replace_id_def SEXP_list_replace_def)
  have empty: "tree ex_state = Map.empty" by (simp add: ex_state_def)
  have dist: "distinct (map item_of (filter is_insert ?L))"
    by (simp add: ex_pair_def item_of_def is_insert_def NULL_def)
  have bound: "unat (next_ID ex_state) + length ?L + 1 < 2 ^ 32" by (simp add: ex_state_def)
  from ex_run_four obtain pairs' s' where
    run: "worker_pairs ex_sys ?L ex_state = Returned pairs' s'" and
    items: "map item_of pairs' = [11, 12, 11, 12]"
    by (cases "worker_pairs ex_sys [ex_pair 11, ex_pair 12, ex_pair 13, ex_pair 14] ex_state")
      simp_all
  have ins: "is_insert ([ex_pair 11] ! 0)" "is_insert (ex_pair 12)"
    by (simp_all add: ex_pair_def is_insert_def NULL_def)
  from items have len: "length (map item_of pairs') = 4" by simp
  then have len': "length pairs' = 4" by simp
  have "map item_of pairs' ! 0 = 11" "map item_of pairs' ! 1 = 12" by (simp_all add: items)
  with len' have p0: "item_of (pairs' ! 0) = 11" and p1: "item_of (pairs' ! 1) = 12"
    by simp_all
  have i: "0 < length [ex_pair 11]" by simp
  have "\<exists>ni ne.
    item_id (heap s' 11) = Some (SEXP_string (stamp_format 42 ni)) \<and>
    item_id (heap s' 12) = Some (SEXP_string (stamp_format 42 ne)) \<and>
    stamp_format 42 ni \<noteq> stamp_format 42 ne"
    using unequal_items_distinct_stamps [OF eqv empty dist wf bound run i ins fp neq]
  proof (elim exE conjE)
    fix pre' s e' s1 ni ne
    assume a: "item_of (pairs' ! 0) = item_of (pre' ! 0)"
       "item_of (pairs' ! length [ex_pair 11]) = item_of e'"
      and b: "item_id (heap s' (item_of (pre' ! 0))) =
          Some (SEXP_string (stamp_format (getpid ex_sys) ni))"
       "item_id (heap s' (item_of e')) = Some (SEXP_string (stamp_format (getpid ex_sys) ne))"
       "stamp_format (getpid ex_sys) ni \<noteq> stamp_format (getpid ex_sys) ne"
    from a p0 p1 have "item_of (pre' ! 0) = 11" "item_of e' = 12" by simp_all
    with b have "item_id (heap s' 11) = Some (SEXP_string (stamp_format 42 ni)) \<and>
      item_id (heap s' 12) = Some (SEXP_string (stamp_format 42 ne)) \<and>
      stamp_format 42 ni \<noteq> stamp_format 42 ne" by (simp add: ex_sys_def)
    then show ?thesis by blast
  qed
  then obtain ni ne where st:
    "item_id (heap s' 11) = Some (SEXP_string (stamp_format 42 ni))"
    "item_id (heap s' 12) = Some (SEXP_string (stamp_format 42 ne))"
    "stamp_format 42 ni \<noteq> stamp_format 42 ne"
    by (elim exE conjE)
  have "\<exists>pairs' s' ni ne.
      worker_pairs ex_sys ?L ex_state = Returned pairs' s' \<and>
      map item_of pairs' = [11, 12, 11, 12] \<and>
      item_id (heap s' 11) = Some (SEXP_string (stamp_format 42 ni)) \<and>
      item_id (heap s' 12) = Some (SEXP_string (stamp_format 42 ne)) \<and>
      stamp_format 42 ni \<noteq> stamp_format 42 ne"
    using run items st by (intro exI [of _ pairs'] exI [of _ s'] exI [of _ ni] exI [of _ ne] conjI)
  moreover from fp neq have "SEXP_ID_v ex_sys (heap ex_state 12) = SEXP_ID_v ex_sys (heap ex_state 11)"
    "\<not> SEXP_deepcmp ex_sys (heap ex_state 12) (heap ex_state 11)"
    by (simp_all add: ex_pair_def item_of_def)
  moreover from wf have "items_wf [ex_pair 11, ex_pair 12, ex_pair 13, ex_pair 14] (heap ex_state)"
    by simp
  ultimately show ?thesis using eqv by (intro conjI)
qed


end
